theory Spec2Isabelle
  imports Complex_Main
begin

section \<open>Autostereogram generation (autos.py)\<close>

text \<open>
  The module is Python 3 on top of Pillow: \<open>math.ceil\<close> has to return an integer for
  \<open>range(rows)\<close> to accept it, and \<open>/\<close> is true division. The quotients that occur
  (\<open>pixD[i, j]/10\<close>, \<open>W / w\<close>) are floating-point numbers in the program and exact
  rationals here. For image sizes (below \<open>2^31\<close>) and 8-bit samples the two agree on
  every comparison with an integer and on every truncation the program performs: a
  quotient that is an integer is computed exactly, and one that is not lies at least
  \<open>1/10\<close> (respectively \<open>1/w\<close>) away from the nearest integer, far more than the
  rounding error of a double.
\<close>

subsection \<open>Images, pixels and the object store\<close>

datatype error = AssertionError | TypeError | IndexError | ZeroDivisionError

text \<open>What pixel access returns: an integer for mode L, a triple for mode RGB.\<close>

datatype pixel = L nat | RGB nat nat nat

text \<open>
  The pixel buffer of an image, one constructor for each mode. Of Pillow's modes the
  single-channel mode L and the multi-channel mode RGB are modelled.
\<close>

datatype pixels = PixL "nat \<times> nat \<Rightarrow> nat" | PixRGB "nat \<times> nat \<Rightarrow> nat \<times> nat \<times> nat"

record image =
  imsize :: "nat \<times> nat"
  buf :: pixels

definition mode :: "image \<Rightarrow> string" where
  "mode im = (case buf im of PixL f \<Rightarrow> ''L'' | PixRGB g \<Rightarrow> ''RGB'')"

text \<open>\<open>pix[x, y]\<close>: Pillow raises IndexError outside the image.\<close>

definition getpixel :: "image \<Rightarrow> nat \<times> nat \<Rightarrow> error + pixel" where
  "getpixel im xy =
     (if fst xy < fst (imsize im) \<and> snd xy < snd (imsize im)
      then (case buf im of
              PixL f \<Rightarrow> Inr (L (f xy))
            | PixRGB g \<Rightarrow> (case g xy of (r, gr, b) \<Rightarrow> Inr (RGB r gr b)))
      else Inl IndexError)"

text \<open>\<open>pix[x, y] = v\<close>: the value has to fit the mode of the image.\<close>

definition putpixel :: "image \<Rightarrow> nat \<times> nat \<Rightarrow> pixel \<Rightarrow> error + image" where
  "putpixel im xy v =
     (if fst xy < fst (imsize im) \<and> snd xy < snd (imsize im)
      then (case (buf im, v) of
              (PixL f, L d) \<Rightarrow> Inr (im\<lparr>buf := PixL (f(xy := d))\<rparr>)
            | (PixRGB g, RGB r gr b) \<Rightarrow> Inr (im\<lparr>buf := PixRGB (g(xy := (r, gr, b)))\<rparr>)
            | _ \<Rightarrow> Inl TypeError)
      else Inl IndexError)"

text \<open>
  Image objects live in a store: a reference is an index into the list of all objects
  allocated so far, and a new object is appended at the end.
\<close>

type_synonym ref = nat
type_synonym heap = "image list"

definition alloc :: "heap \<Rightarrow> image \<Rightarrow> ref \<times> heap" where
  "alloc h im = (length h, h @ [im])"

subsection \<open>Loops\<close>

text \<open>\<open>for i in xs: body\<close> on the store; an exception ends the loop.\<close>

fun for_each :: "nat list \<Rightarrow> (nat \<Rightarrow> heap \<Rightarrow> (error + unit) \<times> heap) \<Rightarrow> heap \<Rightarrow> (error + unit) \<times> heap" where
  "for_each [] body h = (Inr (), h)"
| "for_each (i # is) body h =
     (case body i h of
        (Inl e, h') \<Rightarrow> (Inl e, h')
      | (Inr u, h') \<Rightarrow> for_each is body h')"

subsection \<open>createTiledImage\<close>

text \<open>\<open>Image.new('RGB', dims)\<close>: a black image.\<close>

definition new_rgb :: "nat \<times> nat \<Rightarrow> image" where
  "new_rgb dims = \<lparr>imsize = dims, buf = PixRGB (\<lambda>xy. (0, 0, 0))\<rparr>"

text \<open>
  The pixels of an image as RGB triples. \<open>paste\<close> converts the image it is given to
  the mode of the image it writes into, and a mode L sample \<open>v\<close> becomes \<open>(v, v, v)\<close>.
\<close>

definition rgb_of :: "image \<Rightarrow> nat \<times> nat \<Rightarrow> nat \<times> nat \<times> nat" where
  "rgb_of im = (case buf im of PixL f \<Rightarrow> (\<lambda>xy. (f xy, f xy, f xy)) | PixRGB g \<Rightarrow> g)"

text \<open>
  \<open>img.paste(tile, box)\<close> for an RGB image \<open>img\<close>, the only kind the program pastes
  into: the tile is copied with its upper left corner at \<open>box\<close>, and what falls outside
  \<open>img\<close> is cut off.
\<close>

definition paste :: "image \<Rightarrow> image \<Rightarrow> nat \<times> nat \<Rightarrow> image" where
  "paste img tile box =
     img\<lparr>buf := PixRGB (\<lambda>xy.
       if fst box \<le> fst xy \<and> fst xy < fst box + fst (imsize tile) \<and> fst xy < fst (imsize img) \<and>
          snd box \<le> snd xy \<and> snd xy < snd box + snd (imsize tile) \<and> snd xy < snd (imsize img)
       then rgb_of tile (fst xy - fst box, snd xy - snd box)
       else rgb_of img xy)\<rparr>"

text \<open>\<open>math.ceil(W / w)\<close>; the division raises when \<open>w\<close> is zero.\<close>

definition ceil_div :: "nat \<Rightarrow> nat \<Rightarrow> error + nat" where
  "ceil_div W w =
     (if w = 0 then Inl ZeroDivisionError else Inr (nat \<lceil>(of_nat W :: rat) / of_nat w\<rceil>))"

definition createTiledImage :: "image \<Rightarrow> nat \<times> nat \<Rightarrow> error + image" where
  "createTiledImage tile dims =
     (case dims of (W, H) \<Rightarrow>
      case imsize tile of (w, h) \<Rightarrow>
      case ceil_div W w of Inl e \<Rightarrow> Inl e | Inr cols \<Rightarrow>
      case ceil_div H h of Inl e \<Rightarrow> Inl e | Inr rows \<Rightarrow>
        Inr (fold (\<lambda>i. fold (\<lambda>j img. paste img tile (j * w, i * h)) [0..<cols]) [0..<rows]
               (new_rgb dims)))"

subsection \<open>createRandomTile\<close>

text \<open>
  What the model takes from the libraries as given: \<open>random.randint\<close> as a function
  of the state of the generator, which it returns updated; the pixels that
  \<open>ImageDraw.ellipse\<close> fills for a bounding box; and the luma that
  \<open>Image.convert('L')\<close> computes from an RGB pixel.
\<close>

record 'g library =
  randint :: "'g \<Rightarrow> int \<Rightarrow> int \<Rightarrow> int \<times> 'g"
  inside_ellipse :: "int \<times> int \<times> int \<times> int \<Rightarrow> int \<times> int \<Rightarrow> bool"
  luma :: "nat \<times> nat \<times> nat \<Rightarrow> nat"

text \<open>\<open>draw.ellipse(bbox, fill)\<close> on an RGB image.\<close>

definition draw_ellipse :: "'g library \<Rightarrow> image \<Rightarrow> int \<times> int \<times> int \<times> int \<Rightarrow> nat \<times> nat \<times> nat \<Rightarrow> image" where
  "draw_ellipse lib img bbox fill =
     img\<lparr>buf := PixRGB (\<lambda>xy.
       if inside_ellipse lib bbox (int (fst xy), int (snd xy)) then fill else rgb_of img xy)\<rparr>"

text \<open>
  One round of the loop: five draws, in the order the program makes them, and the
  arguments of the call of \<open>draw.ellipse\<close> they give. The bounds of \<open>randint\<close> are
  inclusive, and \<open>r\<close> is at most either dimension, so the range is never empty.
\<close>

definition dot_args :: "'g library \<Rightarrow> nat \<times> nat \<Rightarrow> nat \<Rightarrow> 'g \<Rightarrow> ((int \<times> int \<times> int \<times> int) \<times> (nat \<times> nat \<times> nat)) \<times> 'g" where
  "dot_args lib dims r g =
     (case randint lib g 0 (int (fst dims) - int r) of (x, g1) \<Rightarrow>
      case randint lib g1 0 (int (snd dims) - int r) of (y, g2) \<Rightarrow>
      case randint lib g2 0 255 of (c1, g3) \<Rightarrow>
      case randint lib g3 0 255 of (c2, g4) \<Rightarrow>
      case randint lib g4 0 255 of (c3, g5) \<Rightarrow>
        (((x - int r, y - int r, x + int r, y + int r), (nat c1, nat c2, nat c3)), g5))"

definition dot :: "'g library \<Rightarrow> nat \<times> nat \<Rightarrow> nat \<Rightarrow> image \<times> 'g \<Rightarrow> image \<times> 'g" where
  "dot lib dims r s =
     (case dot_args lib dims r (snd s) of ((bbox, fill), g) \<Rightarrow>
        (draw_ellipse lib (fst s) bbox fill, g))"

text \<open>\<open>for _ in range(n)\<close>, on the image and the generator.\<close>

primrec random_dots :: "'g library \<Rightarrow> nat \<times> nat \<Rightarrow> nat \<Rightarrow> nat \<Rightarrow> image \<times> 'g \<Rightarrow> image \<times> 'g" where
  "random_dots lib dims r 0 s = s"
| "random_dots lib dims r (Suc n) s = random_dots lib dims r n (dot lib dims r s)"

definition createRandomTile :: "'g library \<Rightarrow> 'g \<Rightarrow> nat \<times> nat \<Rightarrow> image \<times> 'g" where
  "createRandomTile lib g dims =
     (let img = new_rgb dims;
          r = min (fst dims) (snd dims) div 100;
          n = 1000
      in random_dots lib dims r n (img, g))"

subsection \<open>createDepthShiftedImage\<close>

text \<open>
  The body of the inner loop, at column \<open>i\<close> of row \<open>j\<close>. \<open>pixD\<close> and \<open>pixS\<close> are the
  pixel accessors of the depth map and of the copy: they read and write the buffers of
  those two objects in the store. A float coordinate is truncated by Pillow's pixel
  access; \<open>xpos\<close> is positive where it is used, so the truncation is the floor.
\<close>

definition shift_pixel :: "ref \<Rightarrow> ref \<Rightarrow> int \<Rightarrow> nat \<Rightarrow> nat \<Rightarrow> nat \<Rightarrow> heap \<Rightarrow> (error + unit) \<times> heap" where
  "shift_pixel pixD pixS period cols j i h =
     (case getpixel (h ! pixD) (i, j) of
        Inl e \<Rightarrow> (Inl e, h)
      | Inr (RGB r g b) \<Rightarrow> (Inl TypeError, h)
      | Inr (L d) \<Rightarrow>
          (let xshift = (of_nat d :: rat) / 10;
               xpos = of_nat i - of_int period + xshift
           in if 0 < xpos \<and> xpos < of_nat cols
              then (case getpixel (h ! pixS) (nat \<lfloor>xpos\<rfloor>, j) of
                      Inl e \<Rightarrow> (Inl e, h)
                    | Inr v \<Rightarrow>
                        (case putpixel (h ! pixS) (i, j) v of
                           Inl e \<Rightarrow> (Inl e, h)
                         | Inr s \<Rightarrow> (Inr (), h[pixS := s])))
              else (Inr (), h)))"

definition createDepthShiftedImage :: "heap \<Rightarrow> ref \<Rightarrow> ref \<Rightarrow> int \<Rightarrow> (error + ref) \<times> heap" where
  "createDepthShiftedImage h dmap img period =
     (if imsize (h ! dmap) \<noteq> imsize (h ! img) then (Inl AssertionError, h)
      else
        (case alloc h (h ! img) of (sImg, h1) \<Rightarrow>
           (case imsize (h1 ! sImg) of (cols, rows) \<Rightarrow>
              (case for_each [0..<rows] (\<lambda>j. for_each [0..<cols] (shift_pixel dmap sImg period cols j)) h1 of
                 (Inl e, h2) \<Rightarrow> (Inl e, h2)
               | (Inr u, h2) \<Rightarrow> (Inr sImg, h2)))))"

subsection \<open>createAutostereogram\<close>

text \<open>\<open>dmap.convert('L')\<close>: a new image of the same size, of mode L.\<close>

definition convert_L :: "'g library \<Rightarrow> image \<Rightarrow> image" where
  "convert_L lib im =
     (case buf im of PixL f \<Rightarrow> im | PixRGB g \<Rightarrow> im\<lparr>buf := PixL (\<lambda>xy. luma lib (g xy))\<rparr>)"

text \<open>
  The depth map is converted when its mode is not L, the tile is drawn at random when
  none is given, and each image the function creates is a new object of the store.
\<close>

definition createAutostereogram :: "'g library \<Rightarrow> 'g \<Rightarrow> heap \<Rightarrow> ref \<Rightarrow> ref option \<Rightarrow> ((error + ref) \<times> heap) \<times> 'g" where
  "createAutostereogram lib g h dmap tile =
     (case (if mode (h ! dmap) \<noteq> ''L'' then alloc h (convert_L lib (h ! dmap)) else (dmap, h)) of
        (dmap1, h1) \<Rightarrow>
          (case (case tile of
                   None \<Rightarrow> (case createRandomTile lib g (100, 100) of (t, g1) \<Rightarrow> (alloc h1 t, g1))
                 | Some t \<Rightarrow> ((t, h1), g)) of
             ((tile1, h2), g1) \<Rightarrow>
               (case createTiledImage (h2 ! tile1) (imsize (h2 ! dmap1)) of
                  Inl e \<Rightarrow> ((Inl e, h2), g1)
                | Inr im \<Rightarrow>
                    (case alloc h2 im of (img, h3) \<Rightarrow>
                       (createDepthShiftedImage h3 dmap1 img (int (fst (imsize (h3 ! tile1)))), g1)))))"

subsection \<open>A pass with a read-only source\<close>

text \<open>
  For comparison, the variant that reads every source pixel from an immutable copy
  of the buffer made before the pass: the same two loops, but the source pixel is read
  through an accessor \<open>pixI\<close> of the input image, which the pass never writes, instead
  of the copy that is being written.
\<close>

definition shift_pixel_split :: "ref \<Rightarrow> ref \<Rightarrow> ref \<Rightarrow> int \<Rightarrow> nat \<Rightarrow> nat \<Rightarrow> nat \<Rightarrow> heap \<Rightarrow> (error + unit) \<times> heap" where
  "shift_pixel_split pixD pixI pixS period cols j i h =
     (case getpixel (h ! pixD) (i, j) of
        Inl e \<Rightarrow> (Inl e, h)
      | Inr (RGB r g b) \<Rightarrow> (Inl TypeError, h)
      | Inr (L d) \<Rightarrow>
          (let xshift = (of_nat d :: rat) / 10;
               xpos = of_nat i - of_int period + xshift
           in if 0 < xpos \<and> xpos < of_nat cols
              then (case getpixel (h ! pixI) (nat \<lfloor>xpos\<rfloor>, j) of
                      Inl e \<Rightarrow> (Inl e, h)
                    | Inr v \<Rightarrow>
                        (case putpixel (h ! pixS) (i, j) v of
                           Inl e \<Rightarrow> (Inl e, h)
                         | Inr s \<Rightarrow> (Inr (), h[pixS := s])))
              else (Inr (), h)))"

definition createDepthShiftedImage_split :: "heap \<Rightarrow> ref \<Rightarrow> ref \<Rightarrow> int \<Rightarrow> (error + ref) \<times> heap" where
  "createDepthShiftedImage_split h dmap img period =
     (if imsize (h ! dmap) \<noteq> imsize (h ! img) then (Inl AssertionError, h)
      else
        (case alloc h (h ! img) of (sImg, h1) \<Rightarrow>
           (case imsize (h1 ! sImg) of (cols, rows) \<Rightarrow>
              (case for_each [0..<rows] (\<lambda>j. for_each [0..<cols] (shift_pixel_split dmap img sImg period cols j)) h1 of
                 (Inl e, h2) \<Rightarrow> (Inl e, h2)
               | (Inr u, h2) \<Rightarrow> (Inr sImg, h2)))))"

subsection \<open>A pass with an integer displacement\<close>

text \<open>
  For comparison, the pass as its description words it: the displacement is the
  integer \<open>xshift = floor(D[i, j] / 10)\<close>, the position \<open>xpos = i - period + xshift\<close>
  is an integer, and the test \<open>0 < xpos < W\<close> is made on that integer.
\<close>

definition shift_pixel_floor :: "ref \<Rightarrow> ref \<Rightarrow> int \<Rightarrow> nat \<Rightarrow> nat \<Rightarrow> nat \<Rightarrow> heap \<Rightarrow> (error + unit) \<times> heap" where
  "shift_pixel_floor pixD pixS period cols j i h =
     (case getpixel (h ! pixD) (i, j) of
        Inl e \<Rightarrow> (Inl e, h)
      | Inr (RGB r g b) \<Rightarrow> (Inl TypeError, h)
      | Inr (L d) \<Rightarrow>
          (let xshift = int (d div 10);
               xpos = int i - period + xshift
           in if 0 < xpos \<and> xpos < int cols
              then (case getpixel (h ! pixS) (nat xpos, j) of
                      Inl e \<Rightarrow> (Inl e, h)
                    | Inr v \<Rightarrow>
                        (case putpixel (h ! pixS) (i, j) v of
                           Inl e \<Rightarrow> (Inl e, h)
                         | Inr s \<Rightarrow> (Inr (), h[pixS := s])))
              else (Inr (), h)))"

definition createDepthShiftedImage_floor :: "heap \<Rightarrow> ref \<Rightarrow> ref \<Rightarrow> int \<Rightarrow> (error + ref) \<times> heap" where
  "createDepthShiftedImage_floor h dmap img period =
     (if imsize (h ! dmap) \<noteq> imsize (h ! img) then (Inl AssertionError, h)
      else
        (case alloc h (h ! img) of (sImg, h1) \<Rightarrow>
           (case imsize (h1 ! sImg) of (cols, rows) \<Rightarrow>
              (case for_each [0..<rows] (\<lambda>j. for_each [0..<cols] (shift_pixel_floor dmap sImg period cols j)) h1 of
                 (Inl e, h2) \<Rightarrow> (Inl e, h2)
               | (Inr u, h2) \<Rightarrow> (Inr sImg, h2)))))"

subsection \<open>The pass as a function of the pixel values\<close>

text \<open>
  The position the program computes at column \<open>i\<close> for a depth sample \<open>d\<close>, the test
  it makes on that position, and the column it reads.
\<close>

definition xpos_of :: "int \<Rightarrow> nat \<Rightarrow> nat \<Rightarrow> rat" where
  "xpos_of period i d = of_nat i - of_int period + (of_nat d :: rat) / 10"

definition in_range :: "int \<Rightarrow> nat \<Rightarrow> nat \<Rightarrow> nat \<Rightarrow> bool" where
  "in_range period cols i d = (0 < xpos_of period i d \<and> xpos_of period i d < of_nat cols)"

definition srccol :: "int \<Rightarrow> nat \<Rightarrow> nat \<Rightarrow> nat" where
  "srccol period i d = nat \<lfloor>xpos_of period i d\<rfloor>"

text \<open>One step and one pass over the columns \<open>a..<b\<close> of a single row of pixel values.\<close>

definition rstep :: "(nat \<Rightarrow> nat) \<Rightarrow> int \<Rightarrow> nat \<Rightarrow> nat \<Rightarrow> (nat \<Rightarrow> 'a) \<Rightarrow> (nat \<Rightarrow> 'a)" where
  "rstep dr period cols i r =
     (if in_range period cols i (dr i) then r(i := r (srccol period i (dr i))) else r)"

definition rpass :: "(nat \<Rightarrow> nat) \<Rightarrow> int \<Rightarrow> nat \<Rightarrow> nat \<Rightarrow> nat \<Rightarrow> (nat \<Rightarrow> 'a) \<Rightarrow> (nat \<Rightarrow> 'a)" where
  "rpass dr period cols a b r = fold (rstep dr period cols) [a..<b] r"

text \<open>The same on images: the pixel at a position whatever the mode, and a pixel copied
  inside one image.\<close>

definition rawpx :: "image \<Rightarrow> nat \<times> nat \<Rightarrow> pixel" where
  "rawpx im xy =
     (case buf im of
        PixL f \<Rightarrow> L (f xy)
      | PixRGB g \<Rightarrow> (case g xy of (r, gr, b) \<Rightarrow> RGB r gr b))"

definition copy_px :: "image \<Rightarrow> nat \<times> nat \<Rightarrow> nat \<times> nat \<Rightarrow> image" where
  "copy_px im src dst =
     im\<lparr>buf := (case buf im of
                 PixL f \<Rightarrow> PixL (f(dst := f src))
               | PixRGB g \<Rightarrow> PixRGB (g(dst := g src)))\<rparr>"

definition rowv :: "image \<Rightarrow> nat \<Rightarrow> nat \<Rightarrow> pixel" where
  "rowv im y = (\<lambda>x. rawpx im (x, y))"

definition shift1 :: "(nat \<times> nat \<Rightarrow> nat) \<Rightarrow> int \<Rightarrow> nat \<Rightarrow> nat \<Rightarrow> nat \<Rightarrow> image \<Rightarrow> image" where
  "shift1 D period cols j i im =
     (if in_range period cols i (D (i, j))
      then copy_px im (srccol period i (D (i, j)), j) (i, j) else im)"

definition shifted :: "(nat \<times> nat \<Rightarrow> nat) \<Rightarrow> int \<Rightarrow> image \<Rightarrow> image" where
  "shifted D period im =
     fold (\<lambda>j. fold (shift1 D period (fst (imsize im)) j) [0..<fst (imsize im)])
       [0..<snd (imsize im)] im"

text \<open>What a loop leaves alone: every object other than \<open>s\<close>, and the number of objects.\<close>

definition frame :: "ref \<Rightarrow> heap \<Rightarrow> heap \<Rightarrow> bool" where
  "frame s h h' = (length h' = length h \<and> (\<forall>r. r \<noteq> s \<longrightarrow> h' ! r = h ! r))"

text \<open>The state in which the loops run: the depth map is a mode L image, the copy is a
  different object, and both have \<open>cols\<close> by \<open>rows\<close> pixels.\<close>

definition accessors_ok :: "ref \<Rightarrow> ref \<Rightarrow> (nat \<times> nat \<Rightarrow> nat) \<Rightarrow> nat \<Rightarrow> nat \<Rightarrow> heap \<Rightarrow> bool" where
  "accessors_ok pixD pixS D cols rows h =
     (pixD < length h \<and> pixS < length h \<and> pixD \<noteq> pixS \<and> buf (h ! pixD) = PixL D \<and>
      imsize (h ! pixD) = (cols, rows) \<and> imsize (h ! pixS) = (cols, rows))"

subsection \<open>The dots and the stages of the pipeline\<close>

text \<open>The arguments of the calls of \<open>draw.ellipse\<close> that \<open>n\<close> rounds make, in order.\<close>

primrec dot_list :: "'g library \<Rightarrow> nat \<times> nat \<Rightarrow> nat \<Rightarrow> nat \<Rightarrow> 'g \<Rightarrow> ((int \<times> int \<times> int \<times> int) \<times> (nat \<times> nat \<times> nat)) list" where
  "dot_list lib dims r 0 g = []"
| "dot_list lib dims r (Suc n) g =
     fst (dot_args lib dims r g) # dot_list lib dims r n (snd (dot_args lib dims r g))"

text \<open>The samples of a mode L image.\<close>

definition depth_of :: "image \<Rightarrow> nat \<times> nat \<Rightarrow> nat" where
  "depth_of im = (case buf im of PixL f \<Rightarrow> f | PixRGB g \<Rightarrow> (\<lambda>xy. 0))"

text \<open>The store before the tiled image is created: the objects of the caller, the
  converted depth map if there is one, the random tile if there is one.\<close>

definition stage_heap :: "'g library \<Rightarrow> 'g \<Rightarrow> heap \<Rightarrow> ref \<Rightarrow> ref option \<Rightarrow> heap" where
  "stage_heap lib g h dmap tile =
     h @ (if mode (h ! dmap) \<noteq> ''L'' then [convert_L lib (h ! dmap)] else []) @
         (case tile of None \<Rightarrow> [fst (createRandomTile lib g (100, 100))] | Some t \<Rightarrow> [])"

text \<open>A bounding box that lies within \<open>[0, w) \<times> [0, h)\<close>.\<close>

definition bbox_inside :: "nat \<times> nat \<Rightarrow> int \<times> int \<times> int \<times> int \<Rightarrow> bool" where
  "bbox_inside dims bbox =
     (case bbox of (x0, y0, x1, y1) \<Rightarrow>
        0 \<le> x0 \<and> 0 \<le> y0 \<and> x1 < int (fst dims) \<and> y1 < int (snd dims))"

subsection \<open>Example images\<close>

text \<open>
  A depth map with one value everywhere, a depth map that is zero except at one pixel,
  and an RGB image that repeats every \<open>w\<close> columns, in which the pixel at \<open>(x, y)\<close>
  has the colour \<open>(x mod w, y, 0)\<close>, so that the column a pixel came from can be read
  off its colour.
\<close>

definition flat_depth :: "nat \<Rightarrow> nat \<Rightarrow> nat \<Rightarrow> image" where
  "flat_depth W H d = \<lparr>imsize = (W, H), buf = PixL (\<lambda>xy. d)\<rparr>"

definition spot_depth :: "nat \<Rightarrow> nat \<Rightarrow> nat \<times> nat \<Rightarrow> nat \<Rightarrow> image" where
  "spot_depth W H p d = \<lparr>imsize = (W, H), buf = PixL (\<lambda>xy. if xy = p then d else 0)\<rparr>"

definition striped :: "nat \<Rightarrow> nat \<Rightarrow> nat \<Rightarrow> image" where
  "striped W H w = \<lparr>imsize = (W, H), buf = PixRGB (\<lambda>xy. (fst xy mod w, snd xy, 0))\<rparr>"

text \<open>The image \<open>createTiledImage\<close> returns, for a tile that is not empty.\<close>

definition tiled :: "image \<Rightarrow> nat \<times> nat \<Rightarrow> image" where
  "tiled tile dims = (case createTiledImage tile dims of Inr img \<Rightarrow> img | Inl e \<Rightarrow> new_rgb dims)"

text \<open>A random source whose every draw is the lower bound, with a rasteriser that
  fills nothing.\<close>

definition lowest :: "unit library" where
  "lowest = \<lparr>randint = (\<lambda>g a b. (a, g)), inside_ellipse = (\<lambda>bbox p. False), luma = (\<lambda>c. fst c)\<rparr>"

section \<open>Properties\<close>

lemma xpos_of_alt: "xpos_of period i d = of_int (10 * (int i - period) + int d) / 10"
  by (simp add: xpos_of_def field_simps)

lemma floor_xpos_of: "\<lfloor>xpos_of period i d\<rfloor> = int i - period + int (d div 10)"
proof -
  have "xpos_of period i d = of_int (int i - period) + (of_int (int d) :: rat) / of_int 10"
    by (simp add: xpos_of_def)
  then have "\<lfloor>xpos_of period i d\<rfloor> = (int i - period) + \<lfloor>(of_int (int d) :: rat) / of_int 10\<rfloor>"
    using int_add_floor[of "int i - period" "(of_int (int d) :: rat) / of_int 10"] by simp
  also have "\<lfloor>(of_int (int d) :: rat) / of_int 10\<rfloor> = int d div 10"
    by (rule floor_divide_of_int_eq)
  finally show ?thesis by (simp add: zdiv_int)
qed

lemma in_range_int:
  "in_range period cols i d \<longleftrightarrow>
     0 < 10 * (int i - period) + int d \<and> 10 * (int i - period) + int d < 10 * int cols"
proof -
  have a: "(0 < xpos_of period i d) = (0 < 10 * (int i - period) + int d)"
    unfolding xpos_of_alt by (simp add: zero_less_divide_iff del: of_int_add of_int_diff of_int_mult)
  have "(xpos_of period i d < of_nat cols) = 
        ((of_int (10 * (int i - period) + int d) :: rat) < of_int (10 * int cols))"
    unfolding xpos_of_alt by (simp add: divide_less_eq mult.commute)
  also have "\<dots> = (10 * (int i - period) + int d < 10 * int cols)"
    by (rule of_int_less_iff)
  finally show ?thesis using a by (simp add: in_range_def)
qed

lemma srccol_int:
  "in_range period cols i d \<Longrightarrow> int (srccol period i d) = int i - period + int (d div 10)"
  unfolding srccol_def floor_xpos_of in_range_int by (simp add: zdiv_int; linarith)

lemma srccol_lt: "in_range period cols i d \<Longrightarrow> srccol period i d < cols"
  using srccol_int[of period cols i d] unfolding in_range_int by (simp add: zdiv_int; linarith)

lemma rpass_empty: "b \<le> a \<Longrightarrow> rpass dr period cols a b r = r"
  by (simp add: rpass_def)

lemma rpass_rec: "a < b \<Longrightarrow> rpass dr period cols a b r = rpass dr period cols (Suc a) b (rstep dr period cols a r)"
  by (simp add: rpass_def upt_rec)

lemma rstep_other: "x \<noteq> i \<Longrightarrow> rstep dr period cols i r x = r x"
  by (simp add: rstep_def)

lemma rpass_outside: "x < a \<or> b \<le> x \<Longrightarrow> rpass dr period cols a b r x = r x"
proof (induction "b - a" arbitrary: a r)
  case 0
  then show ?case by (simp add: rpass_empty)
next
  case (Suc n)
  then have ab: "a < b" and n: "n = b - Suc a" by auto
  from Suc.prems ab have x: "x \<noteq> a" "x < Suc a \<or> b \<le> x" by auto
  show ?case
    using Suc.hyps(1)[OF n x(2)] x(1) by (simp add: rpass_rec[OF ab] rstep_other)
qed

lemma rpass_inside:
  "a \<le> x \<Longrightarrow> x < b \<Longrightarrow>
   rpass dr period cols a b r x =
     (if in_range period cols x (dr x)
      then (if srccol period x (dr x) < x
            then rpass dr period cols a b r (srccol period x (dr x))
            else r (srccol period x (dr x)))
      else r x)"
proof (induction "b - a" arbitrary: a r)
  case 0
  then show ?case by simp
next
  case (Suc n)
  then have ab: "a < b" and n: "n = b - Suc a" by auto
  let ?r1 = "rstep dr period cols a r"
  let ?s = "srccol period x (dr x)"
  show ?case
  proof (cases "x = a")
    case True
    have fin: "rpass dr period cols a b r a = ?r1 a"
      by (simp add: rpass_rec[OF ab] rpass_outside)
    have src: "?s < a \<Longrightarrow> rpass dr period cols a b r ?s = r ?s"
      by (simp add: rpass_outside)
    show ?thesis
      using fin src True by (auto simp: rstep_def)
  next
    case False
    with Suc.prems have x: "Suc a \<le> x" by simp
    have ih: "rpass dr period cols (Suc a) b ?r1 x =
     (if in_range period cols x (dr x)
      then (if ?s < x then rpass dr period cols (Suc a) b ?r1 ?s else ?r1 ?s)
      else ?r1 x)"
      by (rule Suc.hyps(1)[OF n x Suc.prems(2)])
    have "\<not> ?s < x \<Longrightarrow> ?s \<noteq> a" using x by simp
    then show ?thesis
      using ih False by (simp add: rpass_rec[OF ab] rstep_other)
  qed
qed

lemma getpixel_rawpx:
  "getpixel im xy =
     (if fst xy < fst (imsize im) \<and> snd xy < snd (imsize im) then Inr (rawpx im xy) else Inl IndexError)"
  by (simp add: getpixel_def rawpx_def split: pixels.splits prod.splits)

lemma putpixel_rawpx:
  "fst dst < fst (imsize im) \<Longrightarrow> snd dst < snd (imsize im) \<Longrightarrow>
   putpixel im dst (rawpx im src) = Inr (copy_px im src dst)"
  by (simp add: putpixel_def rawpx_def copy_px_def split: pixels.splits prod.splits)

lemma rawpx_copy_px:
  "rawpx (copy_px im src dst) xy = (if xy = dst then rawpx im src else rawpx im xy)"
  by (simp add: rawpx_def copy_px_def split: pixels.splits)

lemma imsize_copy_px: "imsize (copy_px im src dst) = imsize im"
  by (simp add: copy_px_def)

lemma mode_copy_px: "mode (copy_px im src dst) = mode im"
  by (simp add: copy_px_def mode_def split: pixels.splits)

lemma imsize_shift1: "imsize (shift1 D period cols j i im) = imsize im"
  by (simp add: shift1_def imsize_copy_px)

lemma mode_shift1: "mode (shift1 D period cols j i im) = mode im"
  by (simp add: shift1_def mode_copy_px)

lemma imsize_fold_shift1: "imsize (fold (shift1 D period cols j) is im) = imsize im"
  by (induction "is" arbitrary: im) (simp_all add: imsize_shift1)

lemma mode_fold_shift1: "mode (fold (shift1 D period cols j) is im) = mode im"
  by (induction "is" arbitrary: im) (simp_all add: mode_shift1)

lemma imsize_fold_rows:
  "imsize (fold (\<lambda>j. fold (shift1 D period cols j) is) js im) = imsize im"
  by (induction js arbitrary: im) (simp_all add: imsize_fold_shift1)

lemma mode_fold_rows:
  "mode (fold (\<lambda>j. fold (shift1 D period cols j) is) js im) = mode im"
  by (induction js arbitrary: im) (simp_all add: mode_fold_shift1)

lemma imsize_shifted: "imsize (shifted D period im) = imsize im"
  by (simp add: shifted_def imsize_fold_rows)

lemma mode_shifted: "mode (shifted D period im) = mode im"
  by (simp add: shifted_def mode_fold_rows)

lemma rowv_shift1:
  "rowv (shift1 D period cols j i im) y =
     (if y = j then rstep (\<lambda>x. D (x, j)) period cols i (rowv im j) else rowv im y)"
  by (auto simp: rowv_def shift1_def rstep_def rawpx_copy_px fun_eq_iff)

lemma rowv_fold_shift1:
  "rowv (fold (shift1 D period cols j) is im) y =
     (if y = j then fold (rstep (\<lambda>x. D (x, j)) period cols) is (rowv im j) else rowv im y)"
  by (induction "is" arbitrary: im) (simp_all add: rowv_shift1)

lemma rowv_fold_rows:
  "distinct js \<Longrightarrow>
   rowv (fold (\<lambda>j. fold (shift1 D period cols j) [a..<b]) js im) y =
     (if y \<in> set js then rpass (\<lambda>x. D (x, y)) period cols a b (rowv im y) else rowv im y)"
proof (induction js arbitrary: im)
  case Nil
  then show ?case by simp
next
  case (Cons j js)
  then show ?case by (auto simp: rowv_fold_shift1 rpass_def)
qed

lemma rawpx_shifted:
  "y < snd (imsize im) \<Longrightarrow>
   rawpx (shifted D period im) (x, y) =
     rpass (\<lambda>x. D (x, y)) period (fst (imsize im)) 0 (fst (imsize im)) (rowv im y) x"
proof -
  assume y: "y < snd (imsize im)"
  have "rowv (shifted D period im) y =
        rpass (\<lambda>x. D (x, y)) period (fst (imsize im)) 0 (fst (imsize im)) (rowv im y)"
    unfolding shifted_def using y by (simp add: rowv_fold_rows)
  then show ?thesis by (simp add: rowv_def fun_eq_iff)
qed

lemma frame_refl: "frame s h h"
  by (simp add: frame_def)

lemma frame_trans: "frame s h h1 \<Longrightarrow> frame s h1 h2 \<Longrightarrow> frame s h h2"
  by (simp add: frame_def)

lemma frame_update: "frame s h (h[s := im])"
  by (simp add: frame_def)

lemma shift_pixel_alt:
  "shift_pixel pixD pixS period cols j i h =
     (case getpixel (h ! pixD) (i, j) of
        Inl e \<Rightarrow> (Inl e, h)
      | Inr (RGB r g b) \<Rightarrow> (Inl TypeError, h)
      | Inr (L d) \<Rightarrow>
          (if in_range period cols i d
           then (case getpixel (h ! pixS) (srccol period i d, j) of
                   Inl e \<Rightarrow> (Inl e, h)
                 | Inr v \<Rightarrow>
                     (case putpixel (h ! pixS) (i, j) v of
                        Inl e \<Rightarrow> (Inl e, h)
                      | Inr s \<Rightarrow> (Inr (), h[pixS := s])))
           else (Inr (), h)))"
  unfolding shift_pixel_def in_range_def srccol_def xpos_of_def Let_def by (rule refl)

lemma shift_pixel_frame:
  "shift_pixel pixD pixS period cols j i h = (res, h') \<Longrightarrow> frame pixS h h'"
  by (auto simp: shift_pixel_alt frame_refl frame_update
      split: sum.splits pixel.splits if_splits)

lemma for_each_frame:
  assumes body: "\<And>i h res h'. body i h = (res, h') \<Longrightarrow> frame s h h'"
  shows "for_each is body h = (res, h') \<Longrightarrow> frame s h h'"
proof (induction "is" arbitrary: h)
  case Nil
  then show ?case by (simp add: frame_refl)
next
  case (Cons i "is")
  obtain r1 h1 where b: "body i h = (r1, h1)" by (cases "body i h")
  have f1: "frame s h h1" by (rule body[OF b])
  show ?case
  proof (cases r1)
    case (Inl e)
    with Cons.prems b f1 show ?thesis by simp
  next
    case (Inr u)
    with Cons.prems b have "for_each is body h1 = (res, h')" by simp
    then have "frame s h1 h'" by (rule Cons.IH)
    with f1 show ?thesis by (rule frame_trans)
  qed
qed

lemma accessors_ok_update:
  "accessors_ok pixD pixS D cols rows h \<Longrightarrow> imsize im = imsize (h ! pixS) \<Longrightarrow>
   accessors_ok pixD pixS D cols rows (h[pixS := im])"
  by (simp add: accessors_ok_def)

lemma shift_pixel_eq:
  assumes ok: "accessors_ok pixD pixS D cols rows h" and i: "i < cols" and j: "j < rows"
  shows "shift_pixel pixD pixS period cols j i h =
           (Inr (), h[pixS := shift1 D period cols j i (h ! pixS)])"
proof -
  from ok have D: "getpixel (h ! pixD) (i, j) = Inr (L (D (i, j)))"
    using i j by (simp add: accessors_ok_def getpixel_def)
  show ?thesis
  proof (cases "in_range period cols i (D (i, j))")
    case False
    then show ?thesis
      using D by (simp add: shift_pixel_alt shift1_def)
  next
    case True
    let ?x = "srccol period i (D (i, j))"
    have x: "?x < cols" using True by (rule srccol_lt)
    from ok x j have g: "getpixel (h ! pixS) (?x, j) = Inr (rawpx (h ! pixS) (?x, j))"
      by (simp add: accessors_ok_def getpixel_rawpx)
    from ok i j have p: "putpixel (h ! pixS) (i, j) (rawpx (h ! pixS) (?x, j)) =
        Inr (copy_px (h ! pixS) (?x, j) (i, j))"
      by (simp add: accessors_ok_def putpixel_rawpx)
    show ?thesis
      using D True g p by (simp add: shift_pixel_alt shift1_def)
  qed
qed

lemma for_each_cols_eq:
  "accessors_ok pixD pixS D cols rows h \<Longrightarrow> j < rows \<Longrightarrow> \<forall>i \<in> set is. i < cols \<Longrightarrow>
   for_each is (shift_pixel pixD pixS period cols j) h =
     (Inr (), h[pixS := fold (shift1 D period cols j) is (h ! pixS)])"
proof (induction "is" arbitrary: h)
  case Nil
  then show ?case by simp
next
  case (Cons i "is")
  let ?h1 = "h[pixS := shift1 D period cols j i (h ! pixS)]"
  from Cons.prems have s: "pixS < length h" by (simp add: accessors_ok_def)
  have ok1: "accessors_ok pixD pixS D cols rows ?h1"
    using Cons.prems(1) by (rule accessors_ok_update) (simp add: imsize_shift1)
  have "for_each is (shift_pixel pixD pixS period cols j) ?h1 =
     (Inr (), ?h1[pixS := fold (shift1 D period cols j) is (?h1 ! pixS)])"
    by (rule Cons.IH[OF ok1]) (use Cons.prems in simp_all)
  then show ?case
    using Cons.prems s by (simp add: shift_pixel_eq)
qed

lemma for_each_rows_eq:
  "accessors_ok pixD pixS D cols rows h \<Longrightarrow> \<forall>j \<in> set js. j < rows \<Longrightarrow>
   for_each js (\<lambda>j. for_each [0..<cols] (shift_pixel pixD pixS period cols j)) h =
     (Inr (), h[pixS := fold (\<lambda>j. fold (shift1 D period cols j) [0..<cols]) js (h ! pixS)])"
proof (induction js arbitrary: h)
  case Nil
  then show ?case by simp
next
  case (Cons j js)
  let ?h1 = "h[pixS := fold (shift1 D period cols j) [0..<cols] (h ! pixS)]"
  from Cons.prems have s: "pixS < length h" by (simp add: accessors_ok_def)
  have ok1: "accessors_ok pixD pixS D cols rows ?h1"
    using Cons.prems(1) by (rule accessors_ok_update) (simp add: imsize_fold_shift1)
  have step: "for_each [0..<cols] (shift_pixel pixD pixS period cols j) h = (Inr (), ?h1)"
    by (rule for_each_cols_eq[OF Cons.prems(1)]) (use Cons.prems in simp_all)
  have "for_each js (\<lambda>j. for_each [0..<cols] (shift_pixel pixD pixS period cols j)) ?h1 =
     (Inr (), ?h1[pixS := fold (\<lambda>j. fold (shift1 D period cols j) [0..<cols]) js (?h1 ! pixS)])"
    by (rule Cons.IH[OF ok1]) (use Cons.prems in simp_all)
  then show ?case
    using step s by simp
qed

lemma createDepthShiftedImage_eq:
  assumes d: "dmap < length h" and i: "img < length h"
    and D: "buf (h ! dmap) = PixL D" and sz: "imsize (h ! dmap) = imsize (h ! img)"
  shows "createDepthShiftedImage h dmap img period =
           (Inr (length h), h @ [shifted D period (h ! img)])"
proof -
  obtain cols rows where cr: "imsize (h ! img) = (cols, rows)" by (cases "imsize (h ! img)")
  let ?h1 = "h @ [h ! img]"
  have ok: "accessors_ok dmap (length h) D cols rows ?h1"
    using d i D sz cr by (simp add: accessors_ok_def nth_append)
  have "for_each [0..<rows] (\<lambda>j. for_each [0..<cols] (shift_pixel dmap (length h) period cols j)) ?h1 =
     (Inr (), ?h1[length h := fold (\<lambda>j. fold (shift1 D period cols j) [0..<cols]) [0..<rows] (?h1 ! length h)])"
    by (rule for_each_rows_eq[OF ok]) simp
  then show ?thesis
    using sz cr by (simp add: createDepthShiftedImage_def alloc_def shifted_def)
qed

lemma createDepthShiftedImage_frame:
  assumes "createDepthShiftedImage h dmap img period = (res, h')"
  shows "take (length h) h' = h \<and> (\<forall>s. res = Inr s \<longrightarrow> s = length h \<and> length h' = Suc (length h))"
proof (cases "imsize (h ! dmap) = imsize (h ! img)")
  case False
  with assms show ?thesis by (auto simp: createDepthShiftedImage_def)
next
  case True
  let ?h1 = "h @ [h ! img]"
  obtain cols rows where cr: "imsize (h ! img) = (cols, rows)" by (cases "imsize (h ! img)")
  obtain r2 h2 where l: "for_each [0..<rows] (\<lambda>j. for_each [0..<cols] (shift_pixel dmap (length h) period cols j)) ?h1 = (r2, h2)"
    by (cases "for_each [0..<rows] (\<lambda>j. for_each [0..<cols] (shift_pixel dmap (length h) period cols j)) ?h1")
  have inner: "\<And>j h0 res0 h0'. for_each [0..<cols] (shift_pixel dmap (length h) period cols j) h0 = (res0, h0')
      \<Longrightarrow> frame (length h) h0 h0'"
    by (erule for_each_frame[rotated]) (rule shift_pixel_frame)
  have f: "frame (length h) ?h1 h2"
    using l by (rule for_each_frame[rotated]) (rule inner)
  then have len: "length h2 = Suc (length h)" and same: "\<forall>r<length h. h2 ! r = h ! r"
    by (simp_all add: frame_def nth_append)
  have tk: "take (length h) h2 = h"
    using len same by (simp add: list_eq_iff_nth_eq)
  have h': "h' = h2" and res: "res = (case r2 of Inl e \<Rightarrow> Inl e | Inr u \<Rightarrow> Inr (length h))"
    using assms True cr l by (auto simp: createDepthShiftedImage_def alloc_def split: sum.splits)
  show ?thesis using tk len h' res by (auto split: sum.splits)
qed

lemma output_returns:
  assumes "dmap < length h" "img < length h" "buf (h ! dmap) = PixL D"
    and "imsize (h ! dmap) = imsize (h ! img)"
  shows "fst (createDepthShiftedImage h dmap img period) = Inr (length h)"
    and "snd (createDepthShiftedImage h dmap img period) ! length h = shifted D period (h ! img)"
    and "snd (createDepthShiftedImage h dmap img period) = h @ [shifted D period (h ! img)]"
  using createDepthShiftedImage_eq[OF assms, of period] by simp_all

lemma shifted_pixel:
  assumes sz: "imsize im = (W, H)" and i: "i < W" and j: "j < H"
  shows "rawpx (shifted D period im) (i, j) =
           (if in_range period W i (D (i, j))
            then (if srccol period i (D (i, j)) < i
                  then rawpx (shifted D period im) (srccol period i (D (i, j)), j)
                  else rawpx im (srccol period i (D (i, j)), j))
            else rawpx im (i, j))"
proof -
  have r: "\<And>x. rawpx (shifted D period im) (x, j) = rpass (\<lambda>x. D (x, j)) period W 0 W (rowv im j) x"
    using rawpx_shifted[of j im D period] sz j by simp
  show ?thesis
    unfolding r using rpass_inside[of 0 i W "\<lambda>x. D (x, j)" period W "rowv im j"] i
    by (simp add: rowv_def)
qed

lemma getpixel_shifted:
  "getpixel (shifted D period im) xy =
     (if fst xy < fst (imsize im) \<and> snd xy < snd (imsize im)
      then Inr (rawpx (shifted D period im) xy) else Inl IndexError)"
  by (simp add: getpixel_rawpx imsize_shifted)

lemma spot_depth_simps:
  "imsize (spot_depth W H p d) = (W, H)"
  "buf (spot_depth W H p d) = PixL (\<lambda>xy. if xy = p then d else 0)"
  by (simp_all add: spot_depth_def)

lemma flat_depth_simps:
  "imsize (flat_depth W H d) = (W, H)"
  "buf (flat_depth W H d) = PixL (\<lambda>xy. d)"
  by (simp_all add: flat_depth_def)

lemma striped_simps:
  "imsize (striped W H w) = (W, H)"
  "x < W \<Longrightarrow> y < H \<Longrightarrow> getpixel (striped W H w) (x, y) = Inr (RGB (x mod w) y 0)"
  by (simp_all add: striped_def getpixel_def)

subsection \<open>The reference strip\<close>

text \<open>
  C1, as amended. A pixel in one of the first \<open>period\<close> columns keeps the value of the
  input image when its depth sample is at most \<open>10 * (period - i)\<close>: then
  \<open>i - period + D[i, j]/10\<close> is not positive and the assignment is skipped. The call
  returns the new image.
\<close>

theorem C1_reference_strip:
  assumes "dmap < length h" and "img < length h"
    and "buf (h ! dmap) = PixL D"
    and "imsize (h ! dmap) = (W, H)" and "imsize (h ! img) = (W, H)"
    and "i < W" and "j < H" and "int i < period"
    and "int (D (i, j)) \<le> 10 * (period - int i)"
  shows "fst (createDepthShiftedImage h dmap img period) = Inr (length h) \<and>
         getpixel (snd (createDepthShiftedImage h dmap img period) ! length h) (i, j) =
           getpixel (h ! img) (i, j)"
proof -
  have sz: "imsize (h ! dmap) = imsize (h ! img)" using assms(4,5) by simp
  have n: "\<not> in_range period W i (D (i, j))"
    using assms(9) by (simp add: in_range_int)
  have "rawpx (shifted D period (h ! img)) (i, j) = rawpx (h ! img) (i, j)"
    using shifted_pixel[OF assms(5,6,7), of D period] n by simp
  then show ?thesis
    using output_returns(1,2)[OF assms(1,2,3) sz, of period] assms(5,6,7)
    by (simp add: getpixel_rawpx imsize_shifted)
qed

text \<open>An instance: period 2, a depth sample of 20 at column 0.\<close>

theorem C1_reference_strip_witness:
  "fst (createDepthShiftedImage [spot_depth 4 1 (0, 0) 20, striped 4 1 2] 0 1 2) = Inr 2 \<and>
   getpixel (snd (createDepthShiftedImage [spot_depth 4 1 (0, 0) 20, striped 4 1 2] 0 1 2) ! 2) (0, 0) =
     Inr (RGB 0 0 0)"
  using C1_reference_strip[of 0 "[spot_depth 4 1 (0, 0) 20, striped 4 1 2]" 1
      "\<lambda>xy. if xy = (0, 0) then 20 else 0" 4 1 0 0 2]
  by (simp add: spot_depth_simps striped_simps numeral_2_eq_2)

text \<open>
  C1 as stated fails for a larger depth sample. With period 2 and a sample of 30 at
  column 0 the position is \<open>0 - 2 + 3 = 1\<close>, and column 0 of the output holds the input
  pixel of column 1.
\<close>

theorem C1_counterexample:
  "fst (createDepthShiftedImage [spot_depth 4 1 (0, 0) 30, striped 4 1 2] 0 1 2) = Inr 2 \<and>
   getpixel (snd (createDepthShiftedImage [spot_depth 4 1 (0, 0) 30, striped 4 1 2] 0 1 2) ! 2) (0, 0) =
     Inr (RGB 1 0 0) \<and>
   getpixel ([spot_depth 4 1 (0, 0) 30, striped 4 1 2] ! 1) (0, 0) = Inr (RGB 0 0 0)"
  by (simp add: createDepthShiftedImage_def alloc_def spot_depth_def striped_def
      shift_pixel_def getpixel_def putpixel_def upt_rec Let_def)

lemma getpixel_flat_depth:
  "x < W \<Longrightarrow> y < H \<Longrightarrow> getpixel (flat_depth W H d) (x, y) = Inr (L d)"
  by (simp add: flat_depth_def getpixel_def)

lemma getpixel_spot_depth:
  "x < W \<Longrightarrow> y < H \<Longrightarrow> getpixel (spot_depth W H p d) (x, y) = Inr (L (if (x, y) = p then d else 0))"
  by (simp add: spot_depth_def getpixel_def)

subsection \<open>The displacement\<close>

lemma example_half:
  "fst (createDepthShiftedImage [flat_depth 4 1 5, striped 4 1 4] 0 1 2) = Inr 2"
  "getpixel (snd (createDepthShiftedImage [flat_depth 4 1 5, striped 4 1 4] 0 1 2) ! 2) (2, 0) =
     Inr (RGB 0 0 0)"
  by (simp_all add: createDepthShiftedImage_def alloc_def flat_depth_def striped_def
      shift_pixel_alt in_range_int srccol_def floor_xpos_of getpixel_def putpixel_def upt_rec)

lemma example_half_floor:
  "getpixel (snd (createDepthShiftedImage_floor [flat_depth 4 1 5, striped 4 1 4] 0 1 2) ! 2) (2, 0) =
     Inr (RGB 2 0 0)"
  by (simp add: createDepthShiftedImage_floor_def alloc_def flat_depth_def striped_def
      shift_pixel_floor_def getpixel_def putpixel_def upt_rec Let_def)

text \<open>
  C2, as amended. The displacement the pass applies at a pixel is the quotient
  \<open>D[i, j] / 10\<close>, not rounded; for a sample of at most 255 it is at most 25.5. The
  call returns, and the output pixel at column \<open>i\<close> is the pixel at the source column
  when \<open>0 < i - period + D[i, j] / 10 < W\<close> (the output pixel there when the source
  column is to the left, the input pixel otherwise), and the input pixel at column \<open>i\<close>
  when not. The source column is the position truncated, which is
  \<open>i - period + D[i, j] div 10\<close>, with \<open>D[i, j] div 10\<close> at most 25.
\<close>

theorem C2_displacement:
  assumes "dmap < length h" and "img < length h"
    and "buf (h ! dmap) = PixL D"
    and "imsize (h ! dmap) = (W, H)" and "imsize (h ! img) = (W, H)"
    and "i < W" and "j < H" and "D (i, j) \<le> 255"
  shows "fst (createDepthShiftedImage h dmap img period) = Inr (length h) \<and>
         xpos_of period i (D (i, j)) - (of_nat i - of_int period) = of_nat (D (i, j)) / 10 \<and>
         of_nat (D (i, j)) / 10 \<le> (51 / 2 :: rat) \<and>
         getpixel (snd (createDepthShiftedImage h dmap img period) ! length h) (i, j) =
           (if 0 < xpos_of period i (D (i, j)) \<and> xpos_of period i (D (i, j)) < of_nat W
            then (if srccol period i (D (i, j)) < i
                  then getpixel (snd (createDepthShiftedImage h dmap img period) ! length h)
                         (srccol period i (D (i, j)), j)
                  else getpixel (h ! img) (srccol period i (D (i, j)), j))
            else getpixel (h ! img) (i, j)) \<and>
         (0 < xpos_of period i (D (i, j)) \<longrightarrow>
            int (srccol period i (D (i, j))) = int i - period + int (D (i, j) div 10) \<and>
            D (i, j) div 10 \<le> 25)"
proof -
  let ?d = "D (i, j)"
  have sz: "imsize (h ! dmap) = imsize (h ! img)" using assms(4,5) by simp
  have ret: "fst (createDepthShiftedImage h dmap img period) = Inr (length h)"
    and out: "snd (createDepthShiftedImage h dmap img period) ! length h = shifted D period (h ! img)"
    using output_returns(1,2)[OF assms(1,2,3) sz, of period] by simp_all
  have x: "xpos_of period i ?d - (of_nat i - of_int period) = of_nat ?d / 10"
    by (simp add: xpos_of_def)
  have "(of_nat ?d :: rat) \<le> of_nat 255" using assms(8) by (simp only: of_nat_le_iff)
  then have b: "of_nat ?d / 10 \<le> (51 / 2 :: rat)" by simp
  have fl: "int (srccol period i ?d) = int i - period + int (?d div 10) \<and> ?d div 10 \<le> 25"
    if "0 < xpos_of period i ?d"
  proof -
    have "0 < \<lfloor>xpos_of period i ?d\<rfloor> \<or> \<lfloor>xpos_of period i ?d\<rfloor> = 0"
      using that by (metis floor_less_zero less_linear not_less_iff_gr_or_eq)
    then have "0 \<le> int i - period + int (?d div 10)"
      unfolding floor_xpos_of by linarith
    then show ?thesis using assms(8) by (simp add: srccol_def floor_xpos_of)
  qed
  have px: "getpixel (shifted D period (h ! img)) (i, j) =
           (if in_range period W i ?d
            then (if srccol period i ?d < i
                  then getpixel (shifted D period (h ! img)) (srccol period i ?d, j)
                  else getpixel (h ! img) (srccol period i ?d, j))
            else getpixel (h ! img) (i, j))"
  proof (cases "in_range period W i ?d")
    case True
    have lt: "srccol period i ?d < W" using True by (rule srccol_lt)
    show ?thesis
      using shifted_pixel[OF assms(5,6,7), of D period] True lt assms(5,6,7)
      by (simp add: getpixel_rawpx imsize_shifted)
  next
    case False
    show ?thesis
      using shifted_pixel[OF assms(5,6,7), of D period] False assms(5,6,7)
      by (simp add: getpixel_rawpx imsize_shifted)
  qed
  show ?thesis
    unfolding out using ret x b px fl by (simp add: in_range_def)
qed

text \<open>An instance: depth 255 at column 5 with period 10 reads column 20.\<close>

theorem C2_displacement_witness:
  "fst (createDepthShiftedImage [flat_depth 40 1 255, striped 40 1 40] 0 1 10) = Inr 2 \<and>
   xpos_of 10 5 255 = 41 / 2 \<and> srccol 10 5 255 = 20 \<and>
   getpixel (snd (createDepthShiftedImage [flat_depth 40 1 255, striped 40 1 40] 0 1 10) ! 2) (5, 0) =
     Inr (RGB 20 0 0)"
proof -
  have len: "length [flat_depth 40 1 255, striped 40 1 40] = 2" by simp
  have x: "xpos_of 10 5 255 = 41 / 2" by (simp add: xpos_of_def)
  have s: "srccol 10 5 255 = 20" by (simp add: srccol_def floor_xpos_of)
  show ?thesis
    using C2_displacement[of 0 "[flat_depth 40 1 255, striped 40 1 40]" 1 "\<lambda>xy. 255" 40 1 5 0 10]
    unfolding len by (simp add: flat_depth_simps striped_simps x s)
qed

text \<open>
  C2 as stated fails where the quotient is not an integer. With depth 5 and period 2
  the position at column 2 is \<open>0.5\<close>: the pass overwrites the pixel with the one of
  column 0, while with the integer displacement \<open>floor(5 / 10) = 0\<close> the position is 0
  and the pixel is kept.
\<close>

theorem C2_counterexample:
  "fst (createDepthShiftedImage [flat_depth 4 1 5, striped 4 1 4] 0 1 2) = Inr 2 \<and>
   xpos_of 2 2 5 = 1 / 2 \<and>
   getpixel (snd (createDepthShiftedImage [flat_depth 4 1 5, striped 4 1 4] 0 1 2) ! 2) (2, 0) =
     Inr (RGB 0 0 0) \<and>
   getpixel (snd (createDepthShiftedImage_floor [flat_depth 4 1 5, striped 4 1 4] 0 1 2) ! 2) (2, 0) =
     Inr (RGB 2 0 0)"
  using example_half example_half_floor by (simp add: xpos_of_def)

lemma output_pixel:
  assumes "dmap < length h" and "img < length h" and "buf (h ! dmap) = PixL D"
    and "imsize (h ! dmap) = (W, H)" and "imsize (h ! img) = (W, H)"
    and "i < W" and "j < H"
    and "0 < 10 * (int i - period) + int (D (i, j))"
    and "10 * (int i - period) + int (D (i, j)) < 10 * int W"
  shows "nat (int i - period + int (D (i, j) div 10)) < W"
    and "nat (int i - period + int (D (i, j) div 10)) < i \<Longrightarrow>
         getpixel (snd (createDepthShiftedImage h dmap img period) ! length h) (i, j) =
         getpixel (snd (createDepthShiftedImage h dmap img period) ! length h)
           (nat (int i - period + int (D (i, j) div 10)), j)"
    and "i \<le> nat (int i - period + int (D (i, j) div 10)) \<Longrightarrow>
         getpixel (snd (createDepthShiftedImage h dmap img period) ! length h) (i, j) =
         getpixel (h ! img) (nat (int i - period + int (D (i, j) div 10)), j)"
proof -
  let ?s = "nat (int i - period + int (D (i, j) div 10))"
  have sz: "imsize (h ! dmap) = imsize (h ! img)" using assms(4,5) by simp
  have g: "in_range period W i (D (i, j))"
    using assms(8,9) by (simp add: in_range_int)
  have s: "srccol period i (D (i, j)) = ?s"
    using srccol_int[OF g] by simp
  show lt: "?s < W" using srccol_lt[OF g] s by simp
  have out: "snd (createDepthShiftedImage h dmap img period) ! length h = shifted D period (h ! img)"
    by (rule output_returns(2)[OF assms(1,2,3) sz])
  have px: "rawpx (shifted D period (h ! img)) (i, j) =
      (if ?s < i then rawpx (shifted D period (h ! img)) (?s, j) else rawpx (h ! img) (?s, j))"
    using shifted_pixel[OF assms(5,6,7), of D period] g s by simp
  show "getpixel (snd (createDepthShiftedImage h dmap img period) ! length h) (i, j) =
        getpixel (snd (createDepthShiftedImage h dmap img period) ! length h) (?s, j)"
    if "?s < i"
    using that px lt assms(5,6,7) unfolding out by (simp add: getpixel_rawpx imsize_shifted)
  show "getpixel (snd (createDepthShiftedImage h dmap img period) ! length h) (i, j) =
        getpixel (h ! img) (?s, j)"
    if "i \<le> ?s"
    using that px lt assms(5,6,7) unfolding out by (simp add: getpixel_rawpx imsize_shifted)
qed

lemma example_in_place:
  "fst (createDepthShiftedImage [flat_depth 9 1 10, striped 9 1 3] 0 1 3) = Inr 2"
  "getpixel (snd (createDepthShiftedImage [flat_depth 9 1 10, striped 9 1 3] 0 1 3) ! 2) (5, 0) =
     Inr (RGB 1 0 0)"
  by (simp_all add: createDepthShiftedImage_def alloc_def flat_depth_def striped_def
      shift_pixel_def getpixel_def putpixel_def upt_rec Let_def)

lemma example_split:
  "getpixel (snd (createDepthShiftedImage_split [flat_depth 9 1 10, striped 9 1 3] 0 1 3) ! 2) (5, 0) =
     Inr (RGB 0 0 0)"
  by (simp add: createDepthShiftedImage_split_def alloc_def flat_depth_def striped_def
      shift_pixel_split_def getpixel_def putpixel_def upt_rec Let_def)

subsection \<open>Reading what the pass has written\<close>

text \<open>
  C3. Where the pixel at column \<open>i\<close> is assigned from a column to its left, the output
  at \<open>i\<close> is the output at that column: the value the pass left there, not the value
  of the input image. And there is an input on which the pass differs from the variant
  that reads every source pixel from the input image.
\<close>

theorem C3_read_after_write:
  "(\<forall>h dmap img period D W H i j.
      dmap < length h \<and> img < length h \<and> buf (h ! dmap) = PixL D \<and>
      imsize (h ! dmap) = (W, H) \<and> imsize (h ! img) = (W, H) \<and> i < W \<and> j < H \<and>
      0 < 10 * (int i - period) + int (D (i, j)) \<and>
      10 * (int i - period) + int (D (i, j)) < 10 * int W \<and>
      nat (int i - period + int (D (i, j) div 10)) < i \<longrightarrow>
      getpixel (snd (createDepthShiftedImage h dmap img period) ! length h) (i, j) =
      getpixel (snd (createDepthShiftedImage h dmap img period) ! length h)
        (nat (int i - period + int (D (i, j) div 10)), j)) \<and>
   (\<exists>h dmap img period.
      createDepthShiftedImage h dmap img period \<noteq> createDepthShiftedImage_split h dmap img period)"
proof (intro conjI allI impI)
  fix h :: heap and dmap img :: ref and period :: int and D :: "nat \<times> nat \<Rightarrow> nat"
    and W H i j :: nat
  assume a: "dmap < length h \<and> img < length h \<and> buf (h ! dmap) = PixL D \<and>
      imsize (h ! dmap) = (W, H) \<and> imsize (h ! img) = (W, H) \<and> i < W \<and> j < H \<and>
      0 < 10 * (int i - period) + int (D (i, j)) \<and>
      10 * (int i - period) + int (D (i, j)) < 10 * int W \<and>
      nat (int i - period + int (D (i, j) div 10)) < i"
  then show "getpixel (snd (createDepthShiftedImage h dmap img period) ! length h) (i, j) =
      getpixel (snd (createDepthShiftedImage h dmap img period) ! length h)
        (nat (int i - period + int (D (i, j) div 10)), j)"
    by (intro output_pixel(2)[of dmap h img D W H i j period]) simp_all
next
  let ?h = "[flat_depth 9 1 10, striped 9 1 3]"
  have "createDepthShiftedImage ?h 0 1 3 \<noteq> createDepthShiftedImage_split ?h 0 1 3"
  proof
    assume "createDepthShiftedImage ?h 0 1 3 = createDepthShiftedImage_split ?h 0 1 3"
    then have "getpixel (snd (createDepthShiftedImage ?h 0 1 3) ! 2) (5, 0) =
               getpixel (snd (createDepthShiftedImage_split ?h 0 1 3) ! 2) (5, 0)"
      by simp
    then show False using example_in_place(2) example_split by simp
  qed
  then show "\<exists>h dmap img period.
      createDepthShiftedImage h dmap img period \<noteq> createDepthShiftedImage_split h dmap img period"
    by blast
qed

text \<open>
  An instance: depth 10 everywhere, period 3, a row of nine pixels that repeats every
  three. Column 5 reads column 3, which the pass has already overwritten with the pixel
  of column 1, while the input image holds the pixel of column 0 there.
\<close>

theorem C3_read_after_write_witness:
  "getpixel (snd (createDepthShiftedImage [flat_depth 9 1 10, striped 9 1 3] 0 1 3) ! 2) (5, 0) =
   getpixel (snd (createDepthShiftedImage [flat_depth 9 1 10, striped 9 1 3] 0 1 3) ! 2) (3, 0) \<and>
   getpixel (snd (createDepthShiftedImage [flat_depth 9 1 10, striped 9 1 3] 0 1 3) ! 2) (5, 0) =
     Inr (RGB 1 0 0) \<and>
   getpixel (striped 9 1 3) (3, 0) = Inr (RGB 0 0 0)"
proof -
  have len: "length [flat_depth 9 1 10, striped 9 1 3] = 2" by simp
  have "getpixel (snd (createDepthShiftedImage [flat_depth 9 1 10, striped 9 1 3] 0 1 3) ! 2) (5, 0) =
        getpixel (snd (createDepthShiftedImage [flat_depth 9 1 10, striped 9 1 3] 0 1 3) ! 2) (3, 0)"
    using C3_read_after_write[THEN conjunct1, rule_format,
        where h = "[flat_depth 9 1 10, striped 9 1 3]" and dmap = 0 and img = 1 and period = 3
          and D = "\<lambda>xy. 10" and W = 9 and H = 1 and i = 5 and j = 0]
    unfolding len by (simp add: flat_depth_simps striped_simps)
  then show ?thesis
    using example_in_place(2) by (simp add: striped_simps)
qed

subsection \<open>A depth map with one value\<close>




subsection \<open>The arguments are left alone\<close>

text \<open>
  C10. Whatever the call does, also when it raises, every object that existed before
  the call is unchanged after it, the depth map and the input image among them; the
  image it returns is a new object, different from both.
\<close>

theorem C10_arguments_unchanged:
  assumes "dmap < length h" and "img < length h"
  shows "snd (createDepthShiftedImage h dmap img period) ! dmap = h ! dmap \<and>
         snd (createDepthShiftedImage h dmap img period) ! img = h ! img \<and>
         take (length h) (snd (createDepthShiftedImage h dmap img period)) = h \<and>
         (\<forall>s. fst (createDepthShiftedImage h dmap img period) = Inr s \<longrightarrow>
            s = length h \<and> s \<noteq> dmap \<and> s \<noteq> img \<and>
            s < length (snd (createDepthShiftedImage h dmap img period)))"
proof -
  obtain res h' where r: "createDepthShiftedImage h dmap img period = (res, h')"
    by (cases "createDepthShiftedImage h dmap img period")
  note f = createDepthShiftedImage_frame[OF r]
  have "\<And>r. r < length h \<Longrightarrow> h' ! r = h ! r"
    using f by (metis nth_take)
  then show ?thesis using assms f r by auto
qed

text \<open>An instance, in which the call returns the third object of the store.\<close>

theorem C10_arguments_unchanged_witness:
  "snd (createDepthShiftedImage [flat_depth 9 1 10, striped 9 1 3] 0 1 3) ! 0 = flat_depth 9 1 10 \<and>
   snd (createDepthShiftedImage [flat_depth 9 1 10, striped 9 1 3] 0 1 3) ! 1 = striped 9 1 3 \<and>
   fst (createDepthShiftedImage [flat_depth 9 1 10, striped 9 1 3] 0 1 3) = Inr 2 \<and>
   2 < length (snd (createDepthShiftedImage [flat_depth 9 1 10, striped 9 1 3] 0 1 3))"
  using C10_arguments_unchanged[of 0 "[flat_depth 9 1 10, striped 9 1 3]" 1 3] example_in_place(1)
  by simp

lemma ceil_bounds:
  assumes w: "0 < (w :: nat)"
  shows "W \<le> ((W + w - 1) div w) * w" and "((W + w - 1) div w) * w < W + w"
proof -
  have "W + w - 1 < w + ((W + w - 1) div w) * w"
    using w by (rule dividend_less_div_times)
  then show "W \<le> ((W + w - 1) div w) * w" using w by linarith
  have "((W + w - 1) div w) * w \<le> W + w - 1" by (rule div_times_less_eq_dividend)
  then show "((W + w - 1) div w) * w < W + w" using w by linarith
qed

lemma ceil_div_eq: "0 < w \<Longrightarrow> ceil_div W w = Inr ((W + w - 1) div w)"
proof -
  assume w: "0 < w"
  let ?q = "(W + w - 1) div w"
  have pos: "(0 :: rat) < of_nat w" using w by simp
  have "(of_nat W :: rat) \<le> of_nat (?q * w)"
    using ceil_bounds(1)[OF w, of W] by (simp only: of_nat_le_iff)
  then have up: "(of_nat W :: rat) / of_nat w \<le> of_int (int ?q)"
    using pos by (simp add: divide_le_eq)
  have "(of_nat (?q * w) :: rat) < of_nat (W + w)"
    using ceil_bounds(2)[OF w, of W] by (simp only: of_nat_less_iff)
  then have lo: "of_int (int ?q) - 1 < (of_nat W :: rat) / of_nat w"
    using pos by (simp add: less_divide_eq algebra_simps)
  have "\<lceil>(of_nat W :: rat) / of_nat w\<rceil> = int ?q"
    using lo up by (rule ceiling_unique)
  then show ?thesis using w by (simp add: ceil_div_def)
qed

lemma imsize_paste: "imsize (paste img tile box) = imsize img"
  by (simp add: paste_def)

lemma rgb_of_paste:
  "rgb_of (paste img tile box) xy =
     (if fst box \<le> fst xy \<and> fst xy < fst box + fst (imsize tile) \<and> fst xy < fst (imsize img) \<and>
         snd box \<le> snd xy \<and> snd xy < snd box + snd (imsize tile) \<and> snd xy < snd (imsize img)
      then rgb_of tile (fst xy - fst box, snd xy - snd box)
      else rgb_of img xy)"
  by (simp add: paste_def rgb_of_def)

lemma in_cell:
  assumes w: "0 < (w :: nat)"
  shows "(j * w \<le> X \<and> X < j * w + w) = (X div w = j)"
proof
  assume "j * w \<le> X \<and> X < j * w + w"
  then show "X div w = j"
    by (intro div_nat_eqI) (simp_all add: mult.commute)
next
  assume "X div w = j"
  then show "j * w \<le> X \<and> X < j * w + w"
    using dividend_less_div_times[OF w, of X] by (auto simp: add.commute)
qed

lemma cell_offset: "X div w = j \<Longrightarrow> X - j * w = X mod (w :: nat)"
  by (auto simp: minus_div_mult_eq_mod)

lemma rgb_of_paste_cell:
  assumes "imsize tile = (w, h)" and "0 < w" and "0 < h" and "imsize img = (W, H)"
  shows "rgb_of (paste img tile (j * w, i * h)) (X, Y) =
     (if X < W \<and> Y < H \<and> X div w = j \<and> Y div h = i
      then rgb_of tile (X mod w, Y mod h) else rgb_of img (X, Y))"
  using assms in_cell[of w j X] in_cell[of h i Y] cell_offset[of X w j] cell_offset[of Y h i]
  by (auto simp: rgb_of_paste)

lemma imsize_fold_paste:
  "imsize (fold (\<lambda>j img. paste img tile (f j)) js img) = imsize img"
  by (induction js arbitrary: img) (simp_all add: imsize_paste)

lemma rgb_of_fold_cols:
  assumes "imsize tile = (w, h)" and "0 < w" and "0 < h"
  shows "imsize img = (W, H) \<Longrightarrow>
     rgb_of (fold (\<lambda>j img. paste img tile (j * w, i * h)) js img) (X, Y) =
     (if X < W \<and> Y < H \<and> X div w \<in> set js \<and> Y div h = i
      then rgb_of tile (X mod w, Y mod h) else rgb_of img (X, Y))"
proof (induction js arbitrary: img)
  case Nil
  then show ?case by simp
next
  case (Cons j js)
  have sz: "imsize (paste img tile (j * w, i * h)) = (W, H)"
    using Cons.prems by (simp add: imsize_paste)
  show ?case
    using Cons.IH[OF sz] rgb_of_paste_cell[OF assms Cons.prems, of j i X Y] by auto
qed

lemma imsize_fold_rows_paste:
  "imsize (fold (\<lambda>i. fold (\<lambda>j img. paste img tile (f i j)) js) is img) = imsize img"
  by (induction "is" arbitrary: img) (simp_all add: imsize_fold_paste)

lemma rgb_of_fold_rows:
  assumes "imsize tile = (w, h)" and "0 < w" and "0 < h"
  shows "imsize img = (W, H) \<Longrightarrow>
     rgb_of (fold (\<lambda>i. fold (\<lambda>j img. paste img tile (j * w, i * h)) js) is img) (X, Y) =
     (if X < W \<and> Y < H \<and> X div w \<in> set js \<and> Y div h \<in> set is
      then rgb_of tile (X mod w, Y mod h) else rgb_of img (X, Y))"
proof (induction "is" arbitrary: img)
  case Nil
  then show ?case by simp
next
  case (Cons i "is")
  have sz: "imsize (fold (\<lambda>j img. paste img tile (j * w, i * h)) js img) = (W, H)"
    using Cons.prems by (simp add: imsize_fold_paste)
  show ?case
    using Cons.IH[OF sz] rgb_of_fold_cols[OF assms Cons.prems, of i js X Y] by auto
qed

lemma in_grid: "0 < (w :: nat) \<Longrightarrow> X < W \<Longrightarrow> X div w < (W + w - 1) div w"
  using ceil_bounds(1)[of w W] by (simp add: div_less_iff_less_mult)

lemma createTiledImage_eq:
  assumes "imsize tile = (w, h)" and "0 < w" and "0 < h"
  shows "createTiledImage tile (W, H) =
     Inr (fold (\<lambda>i. fold (\<lambda>j img. paste img tile (j * w, i * h)) [0..<(W + w - 1) div w])
            [0..<(H + h - 1) div h] (new_rgb (W, H)))"
  using assms by (simp add: createTiledImage_def ceil_div_eq)

lemma getpixel_rgb_of:
  "buf im = PixRGB g \<Longrightarrow>
   getpixel im xy =
     (if fst xy < fst (imsize im) \<and> snd xy < snd (imsize im)
      then (case rgb_of im xy of (r, gr, b) \<Rightarrow> Inr (RGB r gr b)) else Inl IndexError)"
  by (simp add: getpixel_def rgb_of_def)

lemma buf_fold_paste:
  "\<exists>g. buf img = PixRGB g \<Longrightarrow> \<exists>g. buf (fold (\<lambda>j img. paste img tile (f j)) js img) = PixRGB g"
  by (induction js arbitrary: img) (simp_all add: paste_def)

lemma buf_fold_rows_paste:
  "\<exists>g. buf img = PixRGB g \<Longrightarrow>
   \<exists>g. buf (fold (\<lambda>i. fold (\<lambda>j img. paste img tile (f i j)) js) is img) = PixRGB g"
  by (induction "is" arbitrary: img) (simp_all add: buf_fold_paste)

lemma tiled_pixel:
  assumes "imsize tile = (w, h)" and "0 < w" and "0 < h"
    and "createTiledImage tile (W, H) = Inr img"
  shows "imsize img = (W, H)" and "\<exists>g. buf img = PixRGB g"
    and "X < W \<Longrightarrow> Y < H \<Longrightarrow> rgb_of img (X, Y) = rgb_of tile (X mod w, Y mod h)"
proof -
  let ?img = "fold (\<lambda>i. fold (\<lambda>j img. paste img tile (j * w, i * h)) [0..<(W + w - 1) div w])
            [0..<(H + h - 1) div h] (new_rgb (W, H))"
  have img: "img = ?img"
    using createTiledImage_eq[OF assms(1,2,3), of W H] assms(4) by simp
  have n: "imsize (new_rgb (W, H)) = (W, H)" by (simp add: new_rgb_def)
  show "imsize img = (W, H)" unfolding img by (simp add: imsize_fold_rows_paste n)
  show "\<exists>g. buf img = PixRGB g" unfolding img
    by (rule buf_fold_rows_paste) (simp add: new_rgb_def)
  show "rgb_of img (X, Y) = rgb_of tile (X mod w, Y mod h)" if "X < W" "Y < H"
    unfolding img using rgb_of_fold_rows[OF assms(1,2,3) n, of "[0..<(W + w - 1) div w]" "[0..<(H + h - 1) div h]" X Y]
      that in_grid[OF assms(2) that(1)] in_grid[OF assms(3) that(2)]
    by simp
qed

lemma rawpx_rgb_of:
  "buf im = PixRGB g \<Longrightarrow> rawpx im xy = (case rgb_of im xy of (r, gr, b) \<Rightarrow> RGB r gr b)"
  by (simp add: rawpx_def rgb_of_def)

lemma tiled_periodic:
  assumes "imsize tile = (w, h)" and "0 < w" and "0 < h"
    and "createTiledImage tile (W, H) = Inr img"
    and "w \<le> X" and "X < W" and "Y < H"
  shows "rawpx img (X - w, Y) = rawpx img (X, Y)"
proof -
  obtain g where g: "buf img = PixRGB g"
    using tiled_pixel(2)[OF assms(1-4)] by blast
  have a: "rgb_of img (X, Y) = rgb_of tile (X mod w, Y mod h)"
    by (rule tiled_pixel(3)[OF assms(1-4) assms(6,7)])
  have "X - w < W" using assms(6) by simp
  then have b: "rgb_of img (X - w, Y) = rgb_of tile ((X - w) mod w, Y mod h)"
    by (rule tiled_pixel(3)[OF assms(1-4) _ assms(7)])
  have "(X - w) mod w = X mod w" using assms(5) by (simp add: le_mod_geq)
  then show ?thesis using a b by (simp add: rawpx_rgb_of[OF g])
qed

lemma zero_depth_identity:
  assumes "imsize tile = (w, h)" and "0 < w" and "0 < h"
    and "createTiledImage tile (W, H) = Inr img" and "Y < H"
  shows "X < W \<Longrightarrow> rawpx (shifted (\<lambda>xy. 0) (int w) img) (X, Y) = rawpx img (X, Y)"
proof (induction X rule: less_induct)
  case (less X)
  have sz: "imsize img = (W, H)" by (rule tiled_pixel(1)[OF assms(1-4)])
  have g: "in_range (int w) W X 0 = (w < X)"
    using less.prems by (auto simp: in_range_int)
  have s: "w < X \<Longrightarrow> srccol (int w) X 0 = X - w"
    using srccol_int[of "int w" W X 0] g by simp
  show ?case
  proof (cases "w < X")
    case False
    then show ?thesis
      using shifted_pixel[OF sz less.prems assms(5), of "\<lambda>xy. 0" "int w"] g by simp
  next
    case True
    have lt: "X - w < X" using True assms(2) by simp
    have "rawpx (shifted (\<lambda>xy. 0) (int w) img) (X, Y) =
          rawpx (shifted (\<lambda>xy. 0) (int w) img) (X - w, Y)"
      using shifted_pixel[OF sz less.prems assms(5), of "\<lambda>xy. 0" "int w"] g s True lt by simp
    also have "\<dots> = rawpx img (X - w, Y)"
      using less.IH[OF lt] less.prems by simp
    also have "\<dots> = rawpx img (X, Y)"
      using tiled_periodic[OF assms(1-4) _ less.prems assms(5)] True by simp
    finally show ?thesis .
  qed
qed

lemma createTiledImage_positive:
  assumes "imsize tile = (w, h)" and "createTiledImage tile dims = Inr img"
  shows "0 < w" and "0 < h"
  using assms by (auto simp: createTiledImage_def ceil_div_def split: prod.splits if_splits)

lemma tiled_eq:
  "imsize tile = (w, h) \<Longrightarrow> 0 < w \<Longrightarrow> 0 < h \<Longrightarrow> createTiledImage tile dims = Inr (tiled tile dims)"
  by (cases dims) (simp add: tiled_def createTiledImage_eq)

subsection \<open>Tiling\<close>

text \<open>
  C7, as amended. For a tile of \<open>w\<close> by \<open>h\<close> pixels, neither of them zero, the
  numbers of columns and rows are the ceilings of \<open>W/w\<close> and \<open>H/h\<close>; the result is
  the black image of \<open>W\<close> by \<open>H\<close> pixels with the tile pasted at \<open>(j * w, i * h)\<close>
  for every cell of the grid; and every pixel \<open>(X, Y)\<close> of the result is the pixel the
  placement of cell \<open>(Y div h, X div w)\<close> puts there, that is, the tile's pixel at
  \<open>(X mod w, Y mod h)\<close>. A tile of 100 by 100 on a canvas of 400 by 200 gives 4 columns
  and 2 rows, and a tile at least as large as the canvas is pasted once, at the origin.
\<close>

theorem C7_tiling:
  assumes "imsize tile = (w, h)" and "0 < w" and "0 < h"
  shows "ceil_div W w = Inr ((W + w - 1) div w) \<and> ceil_div H h = Inr ((H + h - 1) div h) \<and>
         (\<exists>img. createTiledImage tile (W, H) = Inr img \<and>
            img = fold (\<lambda>i. fold (\<lambda>j img. paste img tile (j * w, i * h)) [0..<(W + w - 1) div w])
                    [0..<(H + h - 1) div h] (new_rgb (W, H)) \<and>
            imsize img = (W, H) \<and>
            (\<forall>X<W. \<forall>Y<H.
               X div w < (W + w - 1) div w \<and> Y div h < (H + h - 1) div h \<and>
               getpixel img (X, Y) =
                 getpixel (paste (new_rgb (W, H)) tile (X div w * w, Y div h * h)) (X, Y) \<and>
               getpixel img (X, Y) =
                 (case rgb_of tile (X mod w, Y mod h) of (r, g, b) \<Rightarrow> Inr (RGB r g b)))) \<and>
         ceil_div 400 100 = Inr 4 \<and> ceil_div 200 100 = Inr 2 \<and>
         (0 < W \<and> W \<le> w \<and> 0 < H \<and> H \<le> h \<longrightarrow>
            createTiledImage tile (W, H) = Inr (paste (new_rgb (W, H)) tile (0, 0)))"
proof -
  let ?img = "fold (\<lambda>i. fold (\<lambda>j img. paste img tile (j * w, i * h)) [0..<(W + w - 1) div w])
                    [0..<(H + h - 1) div h] (new_rgb (W, H))"
  have c: "createTiledImage tile (W, H) = Inr ?img"
    by (rule createTiledImage_eq[OF assms])
  note t = tiled_pixel[OF assms c]
  obtain g where g: "buf ?img = PixRGB g" using t(2) by blast
  have n: "imsize (new_rgb (W, H)) = (W, H)" by (simp add: new_rgb_def)
  have px: "getpixel ?img (X, Y) = (case rgb_of tile (X mod w, Y mod h) of (r, g, b) \<Rightarrow> Inr (RGB r g b))"
    if "X < W" "Y < H" for X Y
    using t(1) t(3)[OF that] that getpixel_rgb_of[OF g, of "(X, Y)"] by simp
  have one: "getpixel (paste (new_rgb (W, H)) tile (X div w * w, Y div h * h)) (X, Y) =
      (case rgb_of tile (X mod w, Y mod h) of (r, g, b) \<Rightarrow> Inr (RGB r g b))"
    if "X < W" "Y < H" for X Y
  proof -
    have "buf (paste (new_rgb (W, H)) tile (X div w * w, Y div h * h)) =
          PixRGB (rgb_of (paste (new_rgb (W, H)) tile (X div w * w, Y div h * h)))"
      by (simp add: paste_def rgb_of_def)
    then show ?thesis
      using rgb_of_paste_cell[OF assms n, of "X div w" "Y div h" X Y] that n
      by (simp add: getpixel_rgb_of imsize_paste)
  qed
  have small: "createTiledImage tile (W, H) = Inr (paste (new_rgb (W, H)) tile (0, 0))"
    if "0 < W \<and> W \<le> w \<and> 0 < H \<and> H \<le> h"
  proof -
    have "(W + w - 1) div w = 1" "(H + h - 1) div h = 1"
      using that by (auto intro!: div_nat_eqI)
    then show ?thesis using c by simp
  qed
  have ex: "ceil_div 400 100 = Inr 4 \<and> ceil_div 200 100 = Inr 2"
    by (simp add: ceil_div_eq)
  show ?thesis
    using c t(1) px one in_grid[OF assms(2)] in_grid[OF assms(3)] small ex
    by (simp add: ceil_div_eq[OF assms(2)] ceil_div_eq[OF assms(3)])
qed

text \<open>An instance: a tile of 2 by 2 on a canvas of 5 by 3.\<close>

theorem C7_tiling_witness:
  "\<exists>img. createTiledImage (striped 2 2 2) (5, 3) = Inr img \<and> imsize img = (5, 3) \<and>
         getpixel img (3, 1) = Inr (RGB 1 1 0)"
proof -
  have sz: "imsize (striped 2 2 2) = (2, 2)" by (simp add: striped_simps)
  obtain img where c: "createTiledImage (striped 2 2 2) (5, 3) = Inr img"
    and s: "imsize img = (5, 3)"
    and px: "\<forall>X<5. \<forall>Y<3. X div 2 < (5 + 2 - 1) div 2 \<and> Y div 2 < (3 + 2 - 1) div 2 \<and>
           getpixel img (X, Y) =
             getpixel (paste (new_rgb (5, 3)) (striped 2 2 2) (X div 2 * 2, Y div 2 * 2)) (X, Y) \<and>
           getpixel img (X, Y) =
             (case rgb_of (striped 2 2 2) (X mod 2, Y mod 2) of (r, g, b) \<Rightarrow> Inr (RGB r g b))"
    using C7_tiling[OF sz zero_less_numeral zero_less_numeral, of 5 3] by blast
  have p: "(3 :: nat) < 5" "(1 :: nat) < 3" by simp_all
  have "getpixel img (3, 1) = Inr (RGB 1 1 0)"
    using px[rule_format, OF p, THEN conjunct2, THEN conjunct2, THEN conjunct2]
    by (simp add: rgb_of_def striped_def)
  then show ?thesis using c s by simp
qed

text \<open>
  C7 as stated fails for a tile without pixels: the division \<open>W / w\<close> raises and no
  image is produced.
\<close>

theorem C7_counterexample:
  "createTiledImage (new_rgb (0, 0)) (400, 200) = Inl ZeroDivisionError"
  by (simp add: createTiledImage_def ceil_div_def new_rgb_def)

subsection \<open>A flat depth map\<close>

text \<open>
  C5. When the input image is the tiling of a tile of width \<open>w\<close>, the depth map is zero
  everywhere and the period is \<open>w\<close>, the call returns, and at every column \<open>i\<close> with
  \<open>period \<le> i\<close> and \<open>0 < i - period < W\<close> the output is the input image at column
  \<open>i - period\<close>, which is also the input image at column \<open>i\<close>: nothing changes.
\<close>

theorem C5_zero_depth:
  assumes "imsize tile = (w, h)"
    and "dmap < length hp" and "img < length hp"
    and "buf (hp ! dmap) = PixL (\<lambda>xy. 0)" and "imsize (hp ! dmap) = (W, H)"
    and "createTiledImage tile (W, H) = Inr (hp ! img)"
    and "w \<le> i" and "0 < i - w" and "i < W" and "j < H"
  shows "fst (createDepthShiftedImage hp dmap img (int w)) = Inr (length hp) \<and>
         getpixel (snd (createDepthShiftedImage hp dmap img (int w)) ! length hp) (i, j) =
           getpixel (hp ! img) (i - w, j) \<and>
         getpixel (snd (createDepthShiftedImage hp dmap img (int w)) ! length hp) (i, j) =
           getpixel (hp ! img) (i, j)"
proof -
  note pos = createTiledImage_positive[OF assms(1,6)]
  note tl = assms(1) pos assms(6)
  have szi: "imsize (hp ! img) = (W, H)" by (rule tiled_pixel(1)[OF tl])
  have sz: "imsize (hp ! dmap) = imsize (hp ! img)" using szi assms(5) by simp
  have a: "rawpx (shifted (\<lambda>xy. 0) (int w) (hp ! img)) (i, j) = rawpx (hp ! img) (i, j)"
    by (rule zero_depth_identity[OF tl assms(10) assms(9)])
  have b: "rawpx (hp ! img) (i - w, j) = rawpx (hp ! img) (i, j)"
    by (rule tiled_periodic[OF tl assms(7) assms(9) assms(10)])
  show ?thesis
    using output_returns(1,2)[OF assms(2,3,4) sz, of "int w"] a b szi assms(9,10)
    by (simp add: getpixel_rawpx imsize_shifted)
qed

text \<open>An instance: a tile of width 3 on a row of seven pixels.\<close>

theorem C5_zero_depth_witness:
  "fst (createDepthShiftedImage [flat_depth 7 1 0, tiled (striped 3 1 3) (7, 1)] 0 1 3) = Inr 2 \<and>
   getpixel (snd (createDepthShiftedImage [flat_depth 7 1 0, tiled (striped 3 1 3) (7, 1)] 0 1 3) ! 2) (5, 0) =
     getpixel (tiled (striped 3 1 3) (7, 1)) (2, 0)"
proof -
  have len: "length [flat_depth 7 1 0, tiled (striped 3 1 3) (7, 1)] = 2" by simp
  have t: "createTiledImage (striped 3 1 3) (7, 1) = Inr (tiled (striped 3 1 3) (7, 1))"
    by (rule tiled_eq[of _ 3 1]) (simp_all add: striped_simps)
  show ?thesis
    using C5_zero_depth[of "striped 3 1 3" 3 1 0 "[flat_depth 7 1 0, tiled (striped 3 1 3) (7, 1)]" 1 7 1 5 0] t
    unfolding len by (simp add: striped_simps flat_depth_simps)
qed

lemma createTiledImage_size:
  "createTiledImage tile dims = Inr img \<Longrightarrow> imsize img = dims"
  by (auto simp: createTiledImage_def imsize_fold_rows_paste new_rgb_def
      split: prod.splits sum.splits)

lemma mode_L: "(mode im = ''L'') = (\<exists>f. buf im = PixL f)"
  by (simp add: mode_def split: pixels.splits)

lemma convert_L_props:
  "imsize (convert_L lib im) = imsize im"
  "buf (convert_L lib im) = PixL (depth_of (convert_L lib im))"
  by (simp_all add: convert_L_def depth_of_def split: pixels.splits)

lemma depth_of_L: "mode im = ''L'' \<Longrightarrow> buf im = PixL (depth_of im)"
  by (auto simp: mode_L depth_of_def)

lemma imsize_draw_ellipse: "imsize (draw_ellipse lib img bbox fill) = imsize img"
  by (simp add: draw_ellipse_def)

lemma imsize_dot: "imsize (fst (dot lib dims r s)) = imsize (fst s)"
  by (simp add: dot_def imsize_draw_ellipse split: prod.splits)

lemma imsize_random_dots: "imsize (fst (random_dots lib dims r n s)) = imsize (fst s)"
  by (induction n arbitrary: s) (simp_all add: imsize_dot)

lemma imsize_createRandomTile: "imsize (fst (createRandomTile lib g dims)) = dims"
  by (simp add: createRandomTile_def imsize_random_dots new_rgb_def)

subsection \<open>Random dots\<close>

text \<open>
  C6 fails on the code. For a tile of 100 by 100 the radius is 1, and when the first two
  draws are 0 the centre is \<open>(0, 0)\<close> and the first ellipse is drawn with the
  bounding box \<open>(-1, -1, 1, 1)\<close>, which does not lie within the tile.
\<close>

theorem C6_circle_cut_off:
  "min (fst (100 :: nat, 100 :: nat)) (snd (100 :: nat, 100 :: nat)) div 100 = 1 \<and>
   fst (fst (dot_args lowest (100, 100) 1 ())) = (-1, -1, 1, 1) \<and>
   \<not> bbox_inside (100, 100) (fst (fst (dot_args lowest (100, 100) 1 ()))) \<and>
   hd (dot_list lowest (100, 100) (min (fst (100 :: nat, 100 :: nat)) (snd (100 :: nat, 100 :: nat)) div 100) 1000 ()) =
     ((-1, -1, 1, 1), (0, 0, 0))"
proof -
  have "hd (dot_list lowest (100, 100) 1 (Suc 999) ()) = fst (dot_args lowest (100, 100) 1 ())"
    by (simp only: dot_list.simps list.sel)
  then have "hd (dot_list lowest (100, 100) 1 1000 ()) = fst (dot_args lowest (100, 100) 1 ())"
    by simp
  then show ?thesis
    by (simp add: dot_args_def lowest_def bbox_inside_def)
qed

lemma createAutostereogram_heap:
  assumes d: "dmap < length h" and t: "\<forall>t. tile = Some t \<longrightarrow> t < length h"
    and c: "createTiledImage
              (fst (case map_option ((!) h) tile of None \<Rightarrow> createRandomTile lib g (100, 100) | Some t \<Rightarrow> (t, g)))
              (imsize (h ! dmap)) = Inr im"
  shows "fst (createAutostereogram lib g h dmap tile) =
           (Inr (Suc (length (stage_heap lib g h dmap tile))),
            stage_heap lib g h dmap tile @
              [im, shifted (depth_of (if mode (h ! dmap) \<noteq> ''L'' then convert_L lib (h ! dmap) else h ! dmap))
                     (int (fst (imsize (fst (case map_option ((!) h) tile of
                         None \<Rightarrow> createRandomTile lib g (100, 100) | Some t \<Rightarrow> (t, g)))))) im])"
proof -
  let ?D1 = "if mode (h ! dmap) \<noteq> ''L'' then convert_L lib (h ! dmap) else h ! dmap"
  let ?T1 = "case map_option ((!) h) tile of None \<Rightarrow> createRandomTile lib g (100, 100) | Some t \<Rightarrow> (t, g)"
  let ?hm = "stage_heap lib g h dmap tile"
  obtain dmap1 h1 where c1: "(if mode (h ! dmap) \<noteq> ''L'' then alloc h (convert_L lib (h ! dmap)) else (dmap, h)) = (dmap1, h1)"
    by (cases "if mode (h ! dmap) \<noteq> ''L'' then alloc h (convert_L lib (h ! dmap)) else (dmap, h)")
  have h1: "dmap1 < length h1" "h1 ! dmap1 = ?D1" "length h \<le> length h1" "\<And>r. r < length h \<Longrightarrow> h1 ! r = h ! r"
    "h1 = h @ (if mode (h ! dmap) \<noteq> ''L'' then [convert_L lib (h ! dmap)] else [])"
    using c1 d by (auto simp: alloc_def nth_append split: if_splits)
  obtain tile1 h2 g1 where c2: "(case tile of
              None \<Rightarrow> (case createRandomTile lib g (100, 100) of (t, g1) \<Rightarrow> (alloc h1 t, g1))
            | Some t \<Rightarrow> ((t, h1), g)) = ((tile1, h2), g1)"
    by (metis surj_pair)
  have h2: "tile1 < length h2" "h2 ! tile1 = fst ?T1" "g1 = snd ?T1" "dmap1 < length h2" "h2 ! dmap1 = ?D1"
    using c2 h1(1-4) t by (auto simp: alloc_def nth_append split: option.splits prod.splits)
  have hm: "h2 = ?hm"
    using c2 h1(5) by (auto simp: stage_heap_def alloc_def split: option.splits prod.splits)
  have D: "buf ?D1 = PixL (depth_of ?D1)"
    by (simp add: convert_L_props depth_of_L)
  have szD: "imsize ?D1 = imsize (h ! dmap)" by (simp add: convert_L_props)
  have sz: "imsize im = imsize ?D1" using c szD by (simp add: createTiledImage_size)
  let ?h3 = "h2 @ [im]"
  have "createDepthShiftedImage ?h3 dmap1 (length h2) (int (fst (imsize (fst ?T1)))) =
         (Inr (length ?h3), ?h3 @ [shifted (depth_of ?D1) (int (fst (imsize (fst ?T1)))) (?h3 ! length h2)])"
    using h2 D sz by (intro createDepthShiftedImage_eq) (simp_all add: nth_append)
  then show ?thesis
    using c1 c2 h2 c szD unfolding hm[symmetric]
    by (simp add: createAutostereogram_def Let_def alloc_def nth_append)
qed

subsection \<open>Dimensions\<close>

text \<open>
  C9, as amended. With no tile, or a tile of positive width and height,
  \<open>createAutostereogram\<close> returns; the image it returns is the last object of the
  store and has the dimensions of the depth map; so have the tiled image, created just
  before it, and the converted depth map when the depth map is not of mode L. The
  objects of the caller are unchanged.
\<close>

theorem C9_dimensions:
  assumes "dmap < length h"
    and "case tile of None \<Rightarrow> True
         | Some t \<Rightarrow> t < length h \<and> 0 < fst (imsize (h ! t)) \<and> 0 < snd (imsize (h ! t))"
  shows "\<exists>out. fst (fst (createAutostereogram lib g h dmap tile)) = Inr out \<and>
           Suc out = length (snd (fst (createAutostereogram lib g h dmap tile))) \<and>
           imsize (snd (fst (createAutostereogram lib g h dmap tile)) ! out) = imsize (h ! dmap) \<and>
           imsize (snd (fst (createAutostereogram lib g h dmap tile)) ! (out - 1)) = imsize (h ! dmap) \<and>
           take (length h) (snd (fst (createAutostereogram lib g h dmap tile))) = h \<and>
           (mode (h ! dmap) \<noteq> ''L'' \<longrightarrow>
              mode (snd (fst (createAutostereogram lib g h dmap tile)) ! length h) = ''L'' \<and>
              imsize (snd (fst (createAutostereogram lib g h dmap tile)) ! length h) = imsize (h ! dmap))"
proof -
  let ?T = "fst (case map_option ((!) h) tile of None \<Rightarrow> createRandomTile lib g (100, 100) | Some t \<Rightarrow> (t, g))"
  define hm where "hm = stage_heap lib g h dmap tile"
  define im where "im = tiled ?T (imsize (h ! dmap))"
  define sh where "sh = shifted (depth_of (if mode (h ! dmap) \<noteq> ''L'' then convert_L lib (h ! dmap) else h ! dmap))
                     (int (fst (imsize ?T))) im"
  define hp where "hp = snd (fst (createAutostereogram lib g h dmap tile))"
  have t: "\<forall>t. tile = Some t \<longrightarrow> t < length h"
    using assms(2) by auto
  obtain w ht where wh: "imsize ?T = (w, ht)" by (cases "imsize ?T")
  have pos: "0 < w" "0 < ht"
    using assms(2) wh by (auto simp: imsize_createRandomTile split: option.splits)
  have c: "createTiledImage ?T (imsize (h ! dmap)) = Inr im"
    unfolding im_def by (rule tiled_eq[OF wh pos])
  have r: "fst (createAutostereogram lib g h dmap tile) = (Inr (Suc (length hm)), hm @ [im, sh])"
    unfolding hm_def sh_def by (rule createAutostereogram_heap[OF assms(1) t c])
  have res: "fst (fst (createAutostereogram lib g h dmap tile)) = Inr (Suc (length hm))"
    and hp: "hp = hm @ [im, sh]"
    by (simp_all add: r hp_def)
  have s1: "imsize im = imsize (h ! dmap)"
    using c by (rule createTiledImage_size)
  have s2: "imsize sh = imsize (h ! dmap)"
    unfolding sh_def by (simp add: imsize_shifted s1)
  have lh: "length h \<le> length hm" and tk: "take (length h) hm = h"
    by (simp_all add: hm_def stage_heap_def)
  have cv: "hm ! length h = convert_L lib (h ! dmap)" and lt: "length h < length hm"
    if "mode (h ! dmap) \<noteq> ''L''"
    using that by (simp_all add: hm_def stage_heap_def nth_append)
  have cm: "mode (convert_L lib (h ! dmap)) = ''L''"
    using convert_L_props(2)[of lib "h ! dmap"] by (simp add: mode_L)
  have p1: "Suc (Suc (length hm)) = length hp" by (simp add: hp)
  have p2: "imsize (hp ! Suc (length hm)) = imsize (h ! dmap)"
    by (simp add: hp nth_append s2)
  have p3: "imsize (hp ! (Suc (length hm) - 1)) = imsize (h ! dmap)"
    by (simp add: hp nth_append s1)
  have p4: "take (length h) hp = h"
    using lh tk by (simp add: hp)
  have p5: "mode (hp ! length h) = ''L'' \<and> imsize (hp ! length h) = imsize (h ! dmap)"
    if "mode (h ! dmap) \<noteq> ''L''"
    using cv[OF that] lt[OF that] cm by (simp add: hp nth_append convert_L_props)
  show ?thesis
    unfolding hp_def[symmetric] res using p1 p2 p3 p4 p5 by blast
qed

text \<open>An instance: an RGB depth map of 4 by 2 and a tile of 2 by 1.\<close>

theorem C9_dimensions_witness:
  "\<exists>out. fst (fst (createAutostereogram lowest () [striped 4 2 4, striped 2 1 2] 0 (Some 1))) = Inr out \<and>
     imsize (snd (fst (createAutostereogram lowest () [striped 4 2 4, striped 2 1 2] 0 (Some 1))) ! out) = (4, 2)"
  using C9_dimensions[of 0 "[striped 4 2 4, striped 2 1 2]" "Some 1" lowest "()"]
  by (auto simp: striped_simps)

text \<open>
  C9 as stated fails for a tile without pixels: the division \<open>W / w\<close> in
  \<open>createTiledImage\<close> raises, and no image is returned.
\<close>

theorem C9_counterexample:
  "fst (fst (createAutostereogram lowest () [flat_depth 4 2 0, new_rgb (0, 0)] 0 (Some 1))) =
     Inl ZeroDivisionError"
  by (simp add: createAutostereogram_def createTiledImage_def ceil_div_def mode_def
      flat_depth_def new_rgb_def)

end
